theory Spec2Isabelle
  imports Complex_Main "HOL-Library.Log_Nat"
begin

text \<open>
  The server of the voting system: an Express application that keeps the candidates, the
  votes and two settings in an SQLite database and answers the requests of the client.
  The model follows the server statement by statement: the tables are lists of rows, and
  each statement of a handler may fail with a message of the storage layer. A request
  handler is given twice: as a function from the database to a response and a database,
  which is the handler with nothing else going on, and cut into its callbacks, which the
  server runs in between those of the other requests.
\<close>

section \<open>Strings\<close>

text \<open>
  A string is a list of 8-bit characters, read as the code units below 256 of the
  JavaScript string. \<open>String.prototype.trim\<close> removes white space and line terminators
  from both ends; in this range these are TAB, LF, VT, FF, CR, SPACE and NBSP.
\<close>

definition is_space :: "char \<Rightarrow> bool" where
  "is_space c \<longleftrightarrow>
     c \<in> {CHR 0x09, CHR 0x0A, CHR 0x0B, CHR 0x0C, CHR 0x0D, CHR 0x20, CHR 0xA0}"

definition js_trim :: "string \<Rightarrow> string" where
  "js_trim s = rev (dropWhile is_space (rev (dropWhile is_space s)))"

text \<open>
  SQLite's built-in \<open>LOWER\<close> folds the ASCII letters \<open>A\<close> to \<open>Z\<close> only and leaves every
  other character as it is.
\<close>

definition lower_char :: "char \<Rightarrow> char" where
  "lower_char c =
     (let n = (of_char c :: nat) in if 65 \<le> n \<and> n \<le> 90 then char_of (n + 32) else c)"

definition sql_lower :: "string \<Rightarrow> string" where
  "sql_lower s = map lower_char s"

section \<open>JavaScript values of a request body\<close>

datatype jsval =
    JUndefined
  | JNull
  | JBool bool
  | JNum rat
  | JStr string
  | JArray "jsval list"
  | JObject "(string \<times> jsval) list"

text \<open>\<open>ToBoolean\<close>: what \<open>publish ? a : b\<close> tests.\<close>

fun truthy :: "jsval \<Rightarrow> bool" where
  "truthy JUndefined = False"
| "truthy JNull = False"
| "truthy (JBool b) = b"
| "truthy (JNum n) = (n \<noteq> 0)"
| "truthy (JStr s) = (s \<noteq> [])"
| "truthy (JArray _) = True"
| "truthy (JObject _) = True"

text \<open>The operator \<open>!\<close> on a value.\<close>

definition js_not :: "jsval \<Rightarrow> bool" where
  "js_not x \<longleftrightarrow> \<not> truthy x"

text \<open>
  The fields \<open>name\<close> and \<open>voterName\<close> of a body are whatever JavaScript value the
  request carries, \<open>JUndefined\<close> when the field is absent. \<open>x.trim()\<close> is the trimmed
  string when \<open>x\<close> is a string; on any other value that has passed the test \<open>!x\<close> the
  call throws a \<open>TypeError\<close>, here \<open>None\<close>.
\<close>

definition trim_of :: "jsval \<Rightarrow> string option" where
  "trim_of x = (case x of JStr s \<Rightarrow> Some (js_trim s) | _ \<Rightarrow> None)"

text \<open>
  The field \<open>candidateId\<close> is the number the client sends, the id of a candidate, or is
  absent or \<open>null\<close> (\<open>None\<close>). The test \<open>!candidateId\<close> also holds of 0.
\<close>

definition not_num :: "int option \<Rightarrow> bool" where
  "not_num x = (case x of None \<Rightarrow> True | Some n \<Rightarrow> n = 0)"

section \<open>The database\<close>

record candidate =
  cid :: int
  cname :: string
  cposition :: int
  created_at :: nat

record vote =
  vid :: int
  voter_name :: string
  candidate_id :: int
  timestamp :: nat

record setting =
  skey :: string
  svalue :: string
  updated_at :: nat

text \<open>
  The three tables in rowid order, and for the two \<open>AUTOINCREMENT\<close> keys the largest
  rowid ever handed out (SQLite's \<open>sqlite_sequence\<close>).
\<close>

record store =
  candidates :: "candidate list"
  votes :: "vote list"
  settings :: "setting list"
  candidates_seq :: int
  votes_seq :: int

text \<open>
  A statement that the storage layer fails on hands its callback an error with a message.
  \<open>db k\<close> is the outcome the storage layer has in store for the \<open>k\<close>-th statement a
  request handler issues: \<open>None\<close> to carry it out, \<open>Some msg\<close> to fail with \<open>msg\<close>.
\<close>

type_synonym faults = "nat \<Rightarrow> string option"

definition healthy :: faults where
  "healthy = (\<lambda>k. None)"

definition default_candidates :: "(string \<times> int) list" where
  "default_candidates =
     [(''Alice Johnson'', 1), (''Bob Smith'', 2), (''Carol Wilson'', 3), (''David Brown'', 4)]"

text \<open>The database after \<open>db.serialize\<close> has run on a fresh file at time \<open>now\<close>.\<close>

definition init_store :: "nat \<Rightarrow> store" where
  "init_store now =
     \<lparr>candidates =
        map (\<lambda>(i, (n, p)). \<lparr>cid = i, cname = n, cposition = p, created_at = now\<rparr>)
          (zip [1, 2, 3, 4] default_candidates),
      votes = [],
      settings =
        [\<lparr>skey = ''results_published'', svalue = ''false'', updated_at = now\<rparr>,
         \<lparr>skey = ''winner_announced'', svalue = ''false'', updated_at = now\<rparr>],
      candidates_seq = 4,
      votes_seq = 0\<rparr>"

subsection \<open>The statements\<close>

text \<open>\<open>SELECT * FROM candidates ORDER BY position\<close>\<close>

definition select_candidates :: "store \<Rightarrow> candidate list" where
  "select_candidates s = sort_key cposition (candidates s)"

text \<open>\<open>SELECT MAX(position) as maxPos FROM candidates\<close>: \<open>NULL\<close> on an empty table.\<close>

definition select_max_position :: "store \<Rightarrow> int option" where
  "select_max_position s =
     (if candidates s = [] then None else Some (Max (set (map cposition (candidates s)))))"

text \<open>\<open>row.maxPos || 0\<close>\<close>

definition or_zero :: "int option \<Rightarrow> int" where
  "or_zero x = (case x of None \<Rightarrow> 0 | Some n \<Rightarrow> if n = 0 then 0 else n)"

text \<open>
  \<open>INSERT INTO candidates (name, position) VALUES (?, ?)\<close>. The column \<open>position\<close> is
  \<open>UNIQUE\<close>; the new rowid is one more than the largest ever used.
\<close>

definition insert_candidate :: "string \<Rightarrow> int \<Rightarrow> nat \<Rightarrow> store \<Rightarrow> string + (int \<times> store)" where
  "insert_candidate n p now s =
     (if p \<in> set (map cposition (candidates s))
      then Inl ''SQLITE_CONSTRAINT: UNIQUE constraint failed: candidates.position''
      else
        let i = Max (insert (candidates_seq s) (set (map cid (candidates s)))) + 1 in
        Inr (i, s\<lparr>candidates :=
                    candidates s @ [\<lparr>cid = i, cname = n, cposition = p, created_at = now\<rparr>],
                  candidates_seq := i\<rparr>))"

text \<open>\<open>UPDATE candidates SET name = ? WHERE id = ?\<close>, with the number of rows changed.\<close>

definition update_candidate_name :: "string \<Rightarrow> int \<Rightarrow> store \<Rightarrow> nat \<times> store" where
  "update_candidate_name n i s =
     (length (filter (\<lambda>c. cid c = i) (candidates s)),
      s\<lparr>candidates := map (\<lambda>c. if cid c = i then c\<lparr>cname := n\<rparr> else c) (candidates s)\<rparr>)"

text \<open>\<open>SELECT COUNT(*) as voteCount FROM votes WHERE candidate_id = ?\<close>\<close>

definition count_votes_for :: "int \<Rightarrow> store \<Rightarrow> nat" where
  "count_votes_for i s = length (filter (\<lambda>v. candidate_id v = i) (votes s))"

text \<open>\<open>DELETE FROM candidates WHERE id = ?\<close>, with the number of rows deleted.\<close>

definition delete_candidate_row :: "int \<Rightarrow> store \<Rightarrow> nat \<times> store" where
  "delete_candidate_row i s =
     (length (filter (\<lambda>c. cid c = i) (candidates s)),
      s\<lparr>candidates := filter (\<lambda>c. cid c \<noteq> i) (candidates s)\<rparr>)"

text \<open>
  The scalar subquery \<open>(SELECT position FROM candidates WHERE id = ?)\<close>: the value of
  the first row, \<open>NULL\<close> when no row has that id.
\<close>

definition select_position_of :: "int \<Rightarrow> store \<Rightarrow> int option" where
  "select_position_of i s =
     (case filter (\<lambda>c. cid c = i) (candidates s) of [] \<Rightarrow> None | c # _ \<Rightarrow> Some (cposition c))"

text \<open>
  \<open>UPDATE candidates SET position = position - 1 WHERE position > (subquery)\<close>, the
  subquery read from the table as it is when the statement runs. A comparison with \<open>NULL\<close>
  is not true, so no row qualifies when the subquery has no row.
\<close>

definition sql_greater :: "int \<Rightarrow> int option \<Rightarrow> bool" where
  "sql_greater x y = (case y of None \<Rightarrow> False | Some y' \<Rightarrow> x > y')"

definition shift_positions_after :: "int \<Rightarrow> store \<Rightarrow> store" where
  "shift_positions_after i s =
     s\<lparr>candidates :=
         map (\<lambda>c. if sql_greater (cposition c) (select_position_of i s)
                  then c\<lparr>cposition := cposition c - 1\<rparr> else c)
           (candidates s)\<rparr>"

text \<open>\<open>SELECT id FROM votes WHERE LOWER(voter_name) = LOWER(?)\<close>: is there a row?\<close>

definition select_vote_of :: "string \<Rightarrow> store \<Rightarrow> bool" where
  "select_vote_of n s = (\<exists>v \<in> set (votes s). sql_lower (voter_name v) = sql_lower n)"

text \<open>\<open>SELECT id FROM candidates WHERE id = ?\<close>: is there a row?\<close>

definition select_candidate :: "int \<Rightarrow> store \<Rightarrow> bool" where
  "select_candidate i s = (\<exists>c \<in> set (candidates s). cid c = i)"

text \<open>
  \<open>INSERT INTO votes (voter_name, candidate_id) VALUES (?, ?)\<close>; \<open>timestamp\<close> defaults
  to the current time. The table has no constraint an insert of a string and an integer
  can violate.
\<close>

definition insert_vote :: "string \<Rightarrow> int \<Rightarrow> nat \<Rightarrow> store \<Rightarrow> int \<times> store" where
  "insert_vote n c now s =
     (let i = Max (insert (votes_seq s) (set (map vid (votes s)))) + 1 in
      (i, s\<lparr>votes := votes s @ [\<lparr>vid = i, voter_name = n, candidate_id = c, timestamp = now\<rparr>],
            votes_seq := i\<rparr>))"

text \<open>\<open>DELETE FROM votes\<close>, with the number of rows deleted.\<close>

definition delete_votes :: "store \<Rightarrow> nat \<times> store" where
  "delete_votes s = (length (votes s), s\<lparr>votes := []\<rparr>)"

text \<open>\<open>UPDATE settings SET value = ?, updated_at = CURRENT_TIMESTAMP WHERE key = ?\<close>\<close>

definition update_setting :: "string \<Rightarrow> string \<Rightarrow> nat \<Rightarrow> store \<Rightarrow> store" where
  "update_setting k v now s =
     s\<lparr>settings :=
         map (\<lambda>r. if skey r = k then r\<lparr>svalue := v, updated_at := now\<rparr> else r) (settings s)\<rparr>"

text \<open>\<open>UPDATE settings SET value = 'false' WHERE key = 'results_published'\<close>\<close>

definition unpublish :: "store \<Rightarrow> store" where
  "unpublish s =
     s\<lparr>settings :=
         map (\<lambda>r. if skey r = ''results_published'' then r\<lparr>svalue := ''false''\<rparr> else r)
           (settings s)\<rparr>"

text \<open>
  The query of \<open>/api/results\<close>: every candidate (\<open>LEFT JOIN\<close>) with the number of votes
  whose \<open>candidate_id\<close> is its id, one group for each candidate (\<open>id\<close> is the primary
  key), ordered by position.
\<close>

record tally_row =
  rid :: int
  rname :: string
  rposition :: int
  vote_count :: int

definition select_tally :: "store \<Rightarrow> tally_row list" where
  "select_tally s =
     map (\<lambda>c. \<lparr>rid = cid c, rname = cname c, rposition = cposition c,
                vote_count = int (length (filter (\<lambda>v. candidate_id v = cid c) (votes s)))\<rparr>)
       (sort_key cposition (candidates s))"

text \<open>
  The query of \<open>/api/voters\<close>: the votes joined with their candidates, latest first.
\<close>

record voter_row =
  voter :: string
  candidate_name :: string
  voted_at :: nat

definition select_voters :: "store \<Rightarrow> voter_row list" where
  "select_voters s =
     sort_key (\<lambda>r. - int (voted_at r))
       (concat (map (\<lambda>v. map (\<lambda>c. \<lparr>voter = voter_name v, candidate_name = cname c,
                                      voted_at = timestamp v\<rparr>)
                             (filter (\<lambda>c. cid c = candidate_id v) (candidates s)))
                    (votes s)))"

section \<open>Numbers\<close>

text \<open>
  JavaScript numbers are IEEE 754 binary64 values. The vote counts are integers far below
  \<open>2^53\<close> and are exact; the quotient and the product of the percentage are rounded to
  the nearest binary64 value, ties to the even significand. \<open>binade q\<close> is the exponent
  \<open>e\<close> with \<open>2^e \<le> q < 2^(e+1)\<close>; the values that occur stay inside the normal range,
  where a binade holds the multiples of \<open>2^(e-52)\<close>.
\<close>

definition binade :: "rat \<Rightarrow> int" where
  "binade q =
     (let a = fst (quotient_of q); b = snd (quotient_of q); e = bitlen a - bitlen b
      in if 2 powi e \<le> q then e else e - 1)"

definition round_half_even :: "rat \<Rightarrow> int" where
  "round_half_even q =
     (let n = \<lfloor>q\<rfloor>; r = q - of_int n
      in if r < 1 / 2 then n else if 1 / 2 < r then n + 1 else if even n then n else n + 1)"

definition fl64 :: "rat \<Rightarrow> rat" where
  "fl64 q =
     (if q = 0 then 0
      else let u = 2 powi (binade \<bar>q\<bar> - 52)
           in sgn q * (of_int (round_half_even (\<bar>q\<bar> / u)) * u))"

text \<open>
  \<open>x.toFixed(1)\<close> prints \<open>n / 10\<close> with one decimal, \<open>n\<close> the integer nearest to
  \<open>10 * x\<close> and the larger one of two; a negative \<open>x\<close> is printed as \<open>-\<close> and \<open>-x\<close>.
  The model keeps the number of tenths \<open>n\<close> in place of the numeral it stands for.
\<close>

definition to_fixed1 :: "rat \<Rightarrow> int" where
  "to_fixed1 x = (if x < 0 then - \<lfloor>10 * (- x) + 1 / 2\<rfloor> else \<lfloor>10 * x + 1 / 2\<rfloor>)"

text \<open>
  The \<open>percentage\<close> of a result: the number \<open>0\<close> when no vote has been cast, the string
  of \<open>toFixed(1)\<close> otherwise.
\<close>

datatype percent = Number int | Fixed1 int

definition percent_value :: "percent \<Rightarrow> rat" where
  "percent_value p = (case p of Number n \<Rightarrow> of_int n | Fixed1 n \<Rightarrow> of_int n / 10)"

text \<open>\<open>Math.max(...xs)\<close>, which is \<open>-Infinity\<close> (here \<open>None\<close>) when there is no argument.\<close>

definition math_max :: "int list \<Rightarrow> int option" where
  "math_max xs = (case xs of [] \<Rightarrow> None | x # ys \<Rightarrow> Some (fold max ys x))"

section \<open>Responses\<close>

record result_row = tally_row +
  percentage :: percent

datatype setting_value = SBool bool | SText string

datatype json_body =
    ErrorBody string
  | CandidatesBody "candidate list"
  | CandidateAdded int string int string
  | MessageBody string
  | VoteCast int string
  | ResultsBody (body_results: "result_row list") (body_total: int)
      (body_winner: "result_row option") (body_tie: bool)
  | VotersBody "voter_row list"
  | HasVotedBody bool
  | PublishedBody string jsval
  | SettingsBody "(string \<times> setting_value) list"
  | VotesReset string nat
  | LoginBody bool string

datatype response = Response (status: nat) (body: json_body)

section \<open>The request handlers\<close>

text \<open>
  A handler takes the outcomes of the storage layer, the request and the database, and
  returns the response with the database it leaves when its statements run one right
  after the other, no statement of another request between them; what the statements of
  several requests do in any order is the subject of the next section. A statement that
  fails changes nothing. \<open>now\<close> is the value of \<open>CURRENT_TIMESTAMP\<close> during the request.
\<close>

definition storage_error :: "string \<Rightarrow> response" where
  "storage_error msg = Response 500 (ErrorBody msg)"

text \<open>
  The error-handling middleware, which Express calls with an exception thrown by a
  handler. An error of the storage layer is not thrown: it is the argument of the
  statement's callback, and the handlers answer it themselves.
\<close>

definition error_middleware :: "string \<Rightarrow> response" where
  "error_middleware stack = Response 500 (ErrorBody ''Something went wrong!'')"

text \<open>\<open>GET /api/candidates\<close>\<close>

definition get_candidates :: "faults \<Rightarrow> store \<Rightarrow> response \<times> store" where
  "get_candidates db s =
     (case db 0 of
        Some err \<Rightarrow> (storage_error err, s)
      | None \<Rightarrow> (Response 200 (CandidatesBody (select_candidates s)), s))"

text \<open>\<open>POST /api/candidates\<close>\<close>

definition add_candidate :: "faults \<Rightarrow> nat \<Rightarrow> jsval \<Rightarrow> store \<Rightarrow> response \<times> store" where
  "add_candidate db now name s =
     (if js_not name then (Response 400 (ErrorBody ''Candidate name is required''), s)
      else
        (case trim_of name of
           None \<Rightarrow> (error_middleware ''TypeError: name.trim is not a function'', s)
         | Some trimmed \<Rightarrow>
            (if length trimmed = 0
             then (Response 400 (ErrorBody ''Candidate name is required''), s)
             else
               (case db 0 of
                  Some err \<Rightarrow> (storage_error err, s)
                | None \<Rightarrow>
                   (let nextPosition = or_zero (select_max_position s) + 1 in
                    (case db 1 of
                       Some err \<Rightarrow> (storage_error err, s)
                     | None \<Rightarrow>
                        (case insert_candidate trimmed nextPosition now s of
                           Inl err \<Rightarrow> (storage_error err, s)
                         | Inr (lastID, s') \<Rightarrow>
                             (Response 200
                                (CandidateAdded lastID trimmed nextPosition
                                   ''Candidate added successfully''), s'))))))))"

text \<open>\<open>PUT /api/candidates/:id\<close>\<close>

definition update_candidate ::
  "faults \<Rightarrow> int \<Rightarrow> jsval \<Rightarrow> store \<Rightarrow> response \<times> store" where
  "update_candidate db candidateId name s =
     (if js_not name then (Response 400 (ErrorBody ''Candidate name is required''), s)
      else
        (case trim_of name of
           None \<Rightarrow> (error_middleware ''TypeError: name.trim is not a function'', s)
         | Some trimmed \<Rightarrow>
            (if length trimmed = 0
             then (Response 400 (ErrorBody ''Candidate name is required''), s)
             else
               (case db 0 of
                  Some err \<Rightarrow> (storage_error err, s)
                | None \<Rightarrow>
                   (let (changes, s') = update_candidate_name trimmed candidateId s in
                    if changes = 0 then (Response 404 (ErrorBody ''Candidate not found''), s')
                    else (Response 200 (MessageBody ''Candidate updated successfully''), s'))))))"

text \<open>
  \<open>DELETE /api/candidates/:id\<close>. The id of the path is compared as a number, the column
  being an integer. The last statement has no callback: the response does not wait for
  it, and its failure goes unnoticed.
\<close>

definition delete_candidate :: "faults \<Rightarrow> int \<Rightarrow> store \<Rightarrow> response \<times> store" where
  "delete_candidate db candidateId s =
     (case db 0 of
        Some err \<Rightarrow> (storage_error err, s)
      | None \<Rightarrow>
          (if count_votes_for candidateId s > 0
           then (Response 400
                   (ErrorBody ''Cannot delete candidate with existing votes. Reset votes first.''),
                 s)
           else
             (case db 1 of
                Some err \<Rightarrow> (storage_error err, s)
              | None \<Rightarrow>
                 (let (changes, s') = delete_candidate_row candidateId s in
                  if changes = 0 then (Response 404 (ErrorBody ''Candidate not found''), s')
                  else
                    (Response 200 (MessageBody ''Candidate deleted successfully''),
                     (case db 2 of
                        Some err \<Rightarrow> s'
                      | None \<Rightarrow> shift_positions_after candidateId s'))))))"

text \<open>\<open>POST /api/votes\<close>\<close>

definition cast_vote ::
  "faults \<Rightarrow> nat \<Rightarrow> jsval \<Rightarrow> int option \<Rightarrow> store \<Rightarrow> response \<times> store" where
  "cast_vote db now voterName candidateId s =
     (if js_not voterName \<or> not_num candidateId
      then (Response 400 (ErrorBody ''Voter name and candidate ID are required''), s)
      else
        (case trim_of voterName of
           None \<Rightarrow> (error_middleware ''TypeError: voterName.trim is not a function'', s)
         | Some trimmed \<Rightarrow>
            (case db 0 of
               Some err \<Rightarrow> (storage_error err, s)
             | None \<Rightarrow>
                (if select_vote_of trimmed s
                 then (Response 400 (ErrorBody ''You have already voted!''), s)
                 else
                   (case db 1 of
                      Some err \<Rightarrow> (storage_error err, s)
                    | None \<Rightarrow>
                       (if \<not> select_candidate (the candidateId) s
                        then (Response 404 (ErrorBody ''Candidate not found''), s)
                        else
                          (case db 2 of
                             Some err \<Rightarrow> (storage_error err, s)
                           | None \<Rightarrow>
                              (let (lastID, s') =
                                     insert_vote trimmed (the candidateId) now s
                               in (Response 200 (VoteCast lastID ''Vote cast successfully''),
                                   s')))))))))"

text \<open>\<open>GET /api/results\<close>: the JavaScript on the rows of the query.\<close>

definition total_votes :: "tally_row list \<Rightarrow> int" where
  "total_votes rows = foldl (\<lambda>sum candidate. sum + vote_count candidate) 0 rows"

definition percentage_of :: "int \<Rightarrow> int \<Rightarrow> percent" where
  "percentage_of totalVotes count =
     (if totalVotes > 0
      then Fixed1 (to_fixed1 (fl64 (fl64 (of_int count / of_int totalVotes) * 100)))
      else Number 0)"

definition with_percentage :: "int \<Rightarrow> tally_row \<Rightarrow> result_row" where
  "with_percentage totalVotes candidate =
     tally_row.extend candidate
       (result_row.fields (percentage_of totalVotes (vote_count candidate)))"

text \<open>
  The test of the filter that picks the winners, \<open>r.vote_count === maxVotes && maxVotes > 0\<close>.
\<close>

definition leads :: "int option \<Rightarrow> result_row \<Rightarrow> bool" where
  "leads maxVotes r \<longleftrightarrow>
     Some (vote_count r) = maxVotes \<and> (case maxVotes of None \<Rightarrow> False | Some m \<Rightarrow> m > 0)"

definition results_of :: "tally_row list \<Rightarrow> json_body" where
  "results_of rows =
     (let totalVotes = total_votes rows;
          results = map (with_percentage totalVotes) rows;
          maxVotes = math_max (map vote_count results);
          winners = filter (leads maxVotes) results
      in ResultsBody results totalVotes
           (if length winners = 1 then Some (winners ! 0) else None)
           (length winners > 1 \<and> (case maxVotes of None \<Rightarrow> False | Some m \<Rightarrow> m > 0)))"

definition get_results :: "faults \<Rightarrow> store \<Rightarrow> response \<times> store" where
  "get_results db s =
     (case db 0 of
        Some err \<Rightarrow> (storage_error err, s)
      | None \<Rightarrow> (Response 200 (results_of (select_tally s)), s))"

text \<open>\<open>GET /api/voters\<close>\<close>

definition get_voters :: "faults \<Rightarrow> store \<Rightarrow> response \<times> store" where
  "get_voters db s =
     (case db 0 of
        Some err \<Rightarrow> (storage_error err, s)
      | None \<Rightarrow> (Response 200 (VotersBody (select_voters s)), s))"

text \<open>\<open>GET /api/voters/:name/check\<close>\<close>

definition check_voter :: "faults \<Rightarrow> string \<Rightarrow> store \<Rightarrow> response \<times> store" where
  "check_voter db voterName s =
     (case db 0 of
        Some err \<Rightarrow> (storage_error err, s)
      | None \<Rightarrow> (Response 200 (HasVotedBody (select_vote_of voterName s)), s))"

text \<open>\<open>POST /api/results/publish\<close>\<close>

definition publish_results :: "faults \<Rightarrow> nat \<Rightarrow> jsval \<Rightarrow> store \<Rightarrow> response \<times> store" where
  "publish_results db now publish s =
     (case db 0 of
        Some err \<Rightarrow> (storage_error err, s)
      | None \<Rightarrow>
          (Response 200
             (PublishedBody
                (if truthy publish then ''Results published successfully''
                 else ''Results unpublished successfully'')
                publish),
           update_setting ''results_published'' (if truthy publish then ''true'' else ''false'')
             now s))"

text \<open>\<open>GET /api/settings\<close>\<close>

definition setting_value_of :: "string \<Rightarrow> setting_value" where
  "setting_value_of v =
     (if v = ''true'' then SBool True else if v = ''false'' then SBool False else SText v)"

definition get_settings :: "faults \<Rightarrow> store \<Rightarrow> response \<times> store" where
  "get_settings db s =
     (case db 0 of
        Some err \<Rightarrow> (storage_error err, s)
      | None \<Rightarrow>
          (Response 200
             (SettingsBody (map (\<lambda>row. (skey row, setting_value_of (svalue row))) (settings s))),
           s))"

text \<open>
  \<open>DELETE /api/votes\<close>. The inner callback is an arrow function, so its \<open>this.changes\<close>
  is that of the \<open>DELETE\<close>. When the second statement fails the votes are gone already.
\<close>

definition reset_votes :: "faults \<Rightarrow> store \<Rightarrow> response \<times> store" where
  "reset_votes db s =
     (case db 0 of
        Some err \<Rightarrow> (storage_error err, s)
      | None \<Rightarrow>
          (let (changes, s') = delete_votes s in
           (case db 1 of
              Some err \<Rightarrow> (storage_error err, s')
            | None \<Rightarrow>
               (Response 200 (VotesReset ''All votes reset successfully'' changes),
                unpublish s'))))"

text \<open>\<open>POST /api/admin/login\<close>\<close>

definition admin_login :: "jsval \<Rightarrow> jsval \<Rightarrow> store \<Rightarrow> response \<times> store" where
  "admin_login username password s =
     (if username = JStr ''admin'' \<and> password = JStr ''admin123''
      then (Response 200 (LoginBody True ''Admin login successful''), s)
      else (Response 401 (LoginBody False ''Invalid credentials''), s))"

subsection \<open>The routes\<close>

text \<open>
  A request is one of the routes with what the handler reads of it. The fields of the
  body are read from the object that \<open>express.json()\<close> leaves in \<open>req.body\<close>; a request
  whose body that parser rejects reaches no handler: the parser passes its error on, and
  the error-handling middleware answers.
\<close>

datatype request =
    GetCandidates
  | PostCandidates jsval
  | PutCandidate int jsval
  | DeleteCandidate int
  | PostVotes jsval "int option"
  | GetResults
  | GetVoters
  | GetVoterCheck string
  | PostPublish jsval
  | GetSettings
  | DeleteVotes
  | PostAdminLogin jsval jsval
  | MalformedBody

fun handle :: "faults \<Rightarrow> nat \<Rightarrow> request \<Rightarrow> store \<Rightarrow> response \<times> store" where
  "handle db now GetCandidates s = get_candidates db s"
| "handle db now (PostCandidates name) s = add_candidate db now name s"
| "handle db now (PutCandidate i name) s = update_candidate db i name s"
| "handle db now (DeleteCandidate i) s = delete_candidate db i s"
| "handle db now (PostVotes voterName candidateId) s = cast_vote db now voterName candidateId s"
| "handle db now GetResults s = get_results db s"
| "handle db now GetVoters s = get_voters db s"
| "handle db now (GetVoterCheck name) s = check_voter db name s"
| "handle db now (PostPublish publish) s = publish_results db now publish s"
| "handle db now GetSettings s = get_settings db s"
| "handle db now DeleteVotes s = reset_votes db s"
| "handle db now (PostAdminLogin u p) s = admin_login u p s"
| "handle db now MalformedBody s =
     (error_middleware ''SyntaxError: Unexpected token in JSON'', s)"

section \<open>The server, statement by statement\<close>

text \<open>
  A handler does not run in one piece. Its synchronous part runs when the request
  arrives and hands a statement to the database; every later part is the callback of a
  statement and runs when the database has carried that statement out, and in between
  the database carries out the statements of other requests. No handler opens a
  transaction. A pending statement holds what its callback closes over: the trimmed name
  and the candidate, the position computed, the number of votes deleted.
\<close>

datatype pending =
    SelectCandidates
  | SelectMaxPosition string
  | InsertCandidate string int
  | UpdateCandidateName string int
  | CountVotes int
  | DeleteCandidateRow int
  | ShiftPositions int
  | SelectVote string int
  | SelectCandidate string int
  | InsertVote string int
  | SelectTally
  | SelectVoters
  | SelectVoteCheck string
  | UpdatePublished jsval
  | SelectSettings
  | DeleteVotesAll
  | Unpublish nat

text \<open>
  The synchronous part of a handler: a response at once, or the first statement.
\<close>

fun start :: "request \<Rightarrow> response + pending" where
  "start GetCandidates = Inr SelectCandidates"
| "start (PostCandidates name) =
     (if js_not name then Inl (Response 400 (ErrorBody ''Candidate name is required''))
      else
        (case trim_of name of
           None \<Rightarrow> Inl (error_middleware ''TypeError: name.trim is not a function'')
         | Some trimmed \<Rightarrow>
            (if length trimmed = 0
             then Inl (Response 400 (ErrorBody ''Candidate name is required''))
             else Inr (SelectMaxPosition trimmed))))"
| "start (PutCandidate candidateId name) =
     (if js_not name then Inl (Response 400 (ErrorBody ''Candidate name is required''))
      else
        (case trim_of name of
           None \<Rightarrow> Inl (error_middleware ''TypeError: name.trim is not a function'')
         | Some trimmed \<Rightarrow>
            (if length trimmed = 0
             then Inl (Response 400 (ErrorBody ''Candidate name is required''))
             else Inr (UpdateCandidateName trimmed candidateId))))"
| "start (DeleteCandidate candidateId) = Inr (CountVotes candidateId)"
| "start (PostVotes voterName candidateId) =
     (if js_not voterName \<or> not_num candidateId
      then Inl (Response 400 (ErrorBody ''Voter name and candidate ID are required''))
      else
        (case trim_of voterName of
           None \<Rightarrow> Inl (error_middleware ''TypeError: voterName.trim is not a function'')
         | Some trimmed \<Rightarrow> Inr (SelectVote trimmed (the candidateId))))"
| "start GetResults = Inr SelectTally"
| "start GetVoters = Inr SelectVoters"
| "start (GetVoterCheck voterName) = Inr (SelectVoteCheck voterName)"
| "start (PostPublish publish) = Inr (UpdatePublished publish)"
| "start GetSettings = Inr SelectSettings"
| "start DeleteVotes = Inr DeleteVotesAll"
| "start (PostAdminLogin username password) =
     (if username = JStr ''admin'' \<and> password = JStr ''admin123''
      then Inl (Response 200 (LoginBody True ''Admin login successful''))
      else Inl (Response 401 (LoginBody False ''Invalid credentials'')))"
| "start MalformedBody = Inl (error_middleware ''SyntaxError: Unexpected token in JSON'')"

text \<open>
  A statement carried out, or failed with \<open>err\<close>, at time \<open>now\<close>, and its callback: the
  database after it, the response if the callback sends one, and the statement the
  callback hands to the database, if any. The callback of the \<open>DELETE\<close> of a candidate
  does both. The statement that moves the positions has no callback.
\<close>

fun statement ::
  "string option \<Rightarrow> nat \<Rightarrow> pending \<Rightarrow> store \<Rightarrow> store \<times> response option \<times> pending option" where
  "statement err now SelectCandidates s =
     (case err of
        Some e \<Rightarrow> (s, Some (storage_error e), None)
      | None \<Rightarrow> (s, Some (Response 200 (CandidatesBody (select_candidates s))), None))"
| "statement err now (SelectMaxPosition name) s =
     (case err of
        Some e \<Rightarrow> (s, Some (storage_error e), None)
      | None \<Rightarrow> (s, None, Some (InsertCandidate name (or_zero (select_max_position s) + 1))))"
| "statement err now (InsertCandidate name nextPosition) s =
     (case err of
        Some e \<Rightarrow> (s, Some (storage_error e), None)
      | None \<Rightarrow>
         (case insert_candidate name nextPosition now s of
            Inl e \<Rightarrow> (s, Some (storage_error e), None)
          | Inr (lastID, s') \<Rightarrow>
              (s',
               Some (Response 200
                       (CandidateAdded lastID name nextPosition ''Candidate added successfully'')),
               None)))"
| "statement err now (UpdateCandidateName name candidateId) s =
     (case err of
        Some e \<Rightarrow> (s, Some (storage_error e), None)
      | None \<Rightarrow>
         (let (changes, s') = update_candidate_name name candidateId s in
          if changes = 0 then (s', Some (Response 404 (ErrorBody ''Candidate not found'')), None)
          else (s', Some (Response 200 (MessageBody ''Candidate updated successfully'')), None)))"
| "statement err now (CountVotes candidateId) s =
     (case err of
        Some e \<Rightarrow> (s, Some (storage_error e), None)
      | None \<Rightarrow>
         (if count_votes_for candidateId s > 0
          then (s,
                Some (Response 400
                        (ErrorBody
                           ''Cannot delete candidate with existing votes. Reset votes first.'')),
                None)
          else (s, None, Some (DeleteCandidateRow candidateId))))"
| "statement err now (DeleteCandidateRow candidateId) s =
     (case err of
        Some e \<Rightarrow> (s, Some (storage_error e), None)
      | None \<Rightarrow>
         (let (changes, s') = delete_candidate_row candidateId s in
          if changes = 0 then (s', Some (Response 404 (ErrorBody ''Candidate not found'')), None)
          else (s', Some (Response 200 (MessageBody ''Candidate deleted successfully'')),
                Some (ShiftPositions candidateId))))"
| "statement err now (ShiftPositions candidateId) s =
     (case err of
        Some e \<Rightarrow> (s, None, None)
      | None \<Rightarrow> (shift_positions_after candidateId s, None, None))"
| "statement err now (SelectVote voterName candidateId) s =
     (case err of
        Some e \<Rightarrow> (s, Some (storage_error e), None)
      | None \<Rightarrow>
         (if select_vote_of voterName s
          then (s, Some (Response 400 (ErrorBody ''You have already voted!'')), None)
          else (s, None, Some (SelectCandidate voterName candidateId))))"
| "statement err now (SelectCandidate voterName candidateId) s =
     (case err of
        Some e \<Rightarrow> (s, Some (storage_error e), None)
      | None \<Rightarrow>
         (if \<not> select_candidate candidateId s
          then (s, Some (Response 404 (ErrorBody ''Candidate not found'')), None)
          else (s, None, Some (InsertVote voterName candidateId))))"
| "statement err now (InsertVote voterName candidateId) s =
     (case err of
        Some e \<Rightarrow> (s, Some (storage_error e), None)
      | None \<Rightarrow>
         (let (lastID, s') = insert_vote voterName candidateId now s in
          (s', Some (Response 200 (VoteCast lastID ''Vote cast successfully'')), None)))"
| "statement err now SelectTally s =
     (case err of
        Some e \<Rightarrow> (s, Some (storage_error e), None)
      | None \<Rightarrow> (s, Some (Response 200 (results_of (select_tally s))), None))"
| "statement err now SelectVoters s =
     (case err of
        Some e \<Rightarrow> (s, Some (storage_error e), None)
      | None \<Rightarrow> (s, Some (Response 200 (VotersBody (select_voters s))), None))"
| "statement err now (SelectVoteCheck voterName) s =
     (case err of
        Some e \<Rightarrow> (s, Some (storage_error e), None)
      | None \<Rightarrow> (s, Some (Response 200 (HasVotedBody (select_vote_of voterName s))), None))"
| "statement err now (UpdatePublished publish) s =
     (case err of
        Some e \<Rightarrow> (s, Some (storage_error e), None)
      | None \<Rightarrow>
         (update_setting ''results_published'' (if truthy publish then ''true'' else ''false'')
            now s,
          Some (Response 200
                  (PublishedBody
                     (if truthy publish then ''Results published successfully''
                      else ''Results unpublished successfully'')
                     publish)),
          None))"
| "statement err now SelectSettings s =
     (case err of
        Some e \<Rightarrow> (s, Some (storage_error e), None)
      | None \<Rightarrow>
         (s,
          Some (Response 200
                  (SettingsBody
                     (map (\<lambda>row. (skey row, setting_value_of (svalue row))) (settings s)))),
          None))"
| "statement err now DeleteVotesAll s =
     (case err of
        Some e \<Rightarrow> (s, Some (storage_error e), None)
      | None \<Rightarrow> (let (changes, s') = delete_votes s in (s', None, Some (Unpublish changes))))"
| "statement err now (Unpublish changes) s =
     (case err of
        Some e \<Rightarrow> (s, Some (storage_error e), None)
      | None \<Rightarrow>
         (unpublish s, Some (Response 200 (VotesReset ''All votes reset successfully'' changes)),
          None))"

text \<open>
  The server: the database and the statements handed to it and not yet carried out. A
  request arrives, or the database carries out one of the pending statements, whichever
  it is, and the callback runs; the statement that the callback hands over joins the
  pending ones. The step returns the responses sent in it.
\<close>

type_synonym server = "store \<times> pending list"

datatype event = Arrive request | Execute nat "string option" nat

fun server_step :: "event \<Rightarrow> server \<Rightarrow> response list \<times> server" where
  "server_step (Arrive req) (s, q) =
     (case start req of
        Inl r \<Rightarrow> ([r], (s, q))
      | Inr p \<Rightarrow> ([], (s, q @ [p])))"
| "server_step (Execute i err now) (s, q) =
     (if i < length q
      then
        (let (s', r, p) = statement err now (q ! i) s in
         (case r of None \<Rightarrow> [] | Some r' \<Rightarrow> [r'],
          (s', take i q @ drop (Suc i) q @ (case p of None \<Rightarrow> [] | Some p' \<Rightarrow> [p']))))
      else ([], (s, q)))"

fun run_events :: "event list \<Rightarrow> server \<Rightarrow> response list \<times> server" where
  "run_events [] sv = ([], sv)"
| "run_events (e # es) sv =
     (let (rs, sv') = server_step e sv; (rs', sv'') = run_events es sv' in (rs @ rs', sv''))"

text \<open>
  The states of the server: it starts on a fresh database with nothing pending, and
  takes any step.
\<close>

inductive serving :: "server \<Rightarrow> bool" where
  fresh: "serving (init_store t, [])"
| step: "serving sv \<Longrightarrow> serving (snd (server_step e sv))"

text \<open>The databases the server can be in.\<close>

inductive reachable :: "store \<Rightarrow> bool" where
  db: "serving (s, q) \<Longrightarrow> reachable s"

section \<open>Sequences of requests\<close>

text \<open>
  A request on its own: it arrives when \<open>k\<close> statements are pending, and its statements,
  three at most, are carried out before anything else happens. \<open>db\<close> gives the outcomes
  of the storage layer for them.
\<close>

definition alone :: "nat \<Rightarrow> faults \<Rightarrow> nat \<Rightarrow> request \<Rightarrow> event list" where
  "alone k db now req =
     [Arrive req, Execute k (db 0) now, Execute k (db 1) now, Execute k (db 2) now]"

text \<open>
  Calls made one after the other, each answered before the next is made, on a server
  with nothing pending.
\<close>

definition run :: "(faults \<times> nat \<times> request) list \<Rightarrow> store \<Rightarrow> response list \<times> store" where
  "run calls s =
     (let (rs, s', q) =
            run_events (concat (map (\<lambda>(db, now, req). alone 0 db now req) calls)) (s, [])
      in (rs, s'))"

definition post_candidates ::
  "(faults \<times> nat \<times> jsval) list \<Rightarrow> (faults \<times> nat \<times> request) list" where
  "post_candidates calls = map (\<lambda>(db, now, name). (db, now, PostCandidates name)) calls"

text \<open>The calls of a sequence that were answered with status 200, in the order of the calls.\<close>

definition succeeded :: "'a list \<Rightarrow> response list \<Rightarrow> 'a list" where
  "succeeded calls rs = map fst (filter (\<lambda>(c, r). status r = 200) (zip calls rs))"

text \<open>The same for sequences of votes.\<close>

definition post_votes ::
  "(faults \<times> nat \<times> jsval \<times> int option) list \<Rightarrow> (faults \<times> nat \<times> request) list" where
  "post_votes calls =
     map (\<lambda>(db, now, voterName, candidateId). (db, now, PostVotes voterName candidateId)) calls"

text \<open>
  The statements a request issues when it is on its own, in their order: each is issued
  by the callback of the one before, which has not failed.
\<close>

definition issued :: "faults \<Rightarrow> nat \<Rightarrow> request \<Rightarrow> store \<Rightarrow> pending list" where
  "issued db now req s =
     (case start req of
        Inl r \<Rightarrow> []
      | Inr p0 \<Rightarrow>
         p0 #
         (case statement (db 0) now p0 s of
            (s1, r1, None) \<Rightarrow> []
          | (s1, r1, Some p1) \<Rightarrow>
             p1 #
             (case statement (db 1) now p1 s1 of
                (s2, r2, None) \<Rightarrow> []
              | (s2, r2, Some p2) \<Rightarrow> [p2])))"

text \<open>The statements whose outcome a callback looks at: all but one.\<close>

fun observed :: "pending \<Rightarrow> bool" where
  "observed (ShiftPositions candidateId) = False"
| "observed p = True"

section \<open>Notions of the specification\<close>

text \<open>
  The position the specification gives a new candidate: the largest position there is
  plus one, and one when there is no candidate.
\<close>

definition next_position :: "store \<Rightarrow> int" where
  "next_position s =
     (if candidates s = [] then 1 else Max (set (map cposition (candidates s))) + 1)"

text \<open>
  Letter case ignored: the lower-case form of a string as JavaScript's \<open>toLowerCase\<close>
  gives it, which in the range of the characters here folds \<open>A\<close> to \<open>Z\<close> and the
  accented capitals from 0xC0 to 0xDE (0xD7, the multiplication sign, is no letter).
\<close>

definition fold_char :: "char \<Rightarrow> char" where
  "fold_char c =
     (let n = (of_char c :: nat)
      in if (65 \<le> n \<and> n \<le> 90) \<or> (192 \<le> n \<and> n \<le> 222 \<and> n \<noteq> 215) then char_of (n + 32) else c)"

definition fold_case :: "string \<Rightarrow> string" where
  "fold_case s = map fold_char s"

text \<open>
  \<open>hasVoted\<close> as the specification words it: some vote's voter name matches the name
  asked for, both trimmed, letter case ignored.
\<close>

definition spec_has_voted :: "string \<Rightarrow> store \<Rightarrow> bool" where
  "spec_has_voted n s \<longleftrightarrow>
     (\<exists>v \<in> set (votes s). fold_case (js_trim (voter_name v)) = fold_case (js_trim n))"


text \<open>
  The share of the votes that a candidate with \<open>c\<close> of \<open>t\<close> votes has, in percent, and the
  rounding of a number to one decimal that takes the nearest tenth and the larger of two:
  \<open>round1 x\<close> is the number of tenths.
\<close>

definition share :: "int \<Rightarrow> int \<Rightarrow> rat" where
  "share c t = 100 * of_int c / of_int t"

definition round1 :: "rat \<Rightarrow> int" where
  "round1 x = \<lfloor>10 * x + 1 / 2\<rfloor>"

text \<open>
  The row of the tally that the specification gives a candidate: the candidate with the
  number of the votes cast for it.
\<close>

definition tally_of :: "store \<Rightarrow> candidate \<Rightarrow> tally_row" where
  "tally_of s c =
     \<lparr>rid = cid c, rname = cname c, rposition = cposition c,
      vote_count = int (count_votes_for (cid c) s)\<rparr>"

text \<open>
  What holds of the votes and of the pending statements of the server at any time: the
  voter names are trimmed.
\<close>

fun trimmed_pending :: "pending \<Rightarrow> bool" where
  "trimmed_pending (SelectVote voterName candidateId) \<longleftrightarrow> js_trim voterName = voterName"
| "trimmed_pending (SelectCandidate voterName candidateId) \<longleftrightarrow> js_trim voterName = voterName"
| "trimmed_pending (InsertVote voterName candidateId) \<longleftrightarrow> js_trim voterName = voterName"
| "trimmed_pending p \<longleftrightarrow> True"

definition trimmed_votes :: "store \<Rightarrow> bool" where
  "trimmed_votes s \<longleftrightarrow> (\<forall>v \<in> set (votes s). js_trim (voter_name v) = voter_name v)"

text \<open>
  What holds of the votes as long as no two requests are under way at once: besides, no
  two voter names are equal up to the letter case of \<open>A\<close> to \<open>Z\<close>.
\<close>

definition voters_inv :: "store \<Rightarrow> bool" where
  "voters_inv s \<longleftrightarrow>
     trimmed_votes s \<and> distinct (map (\<lambda>v. sql_lower (voter_name v)) (votes s))"

section \<open>Databases and calls of the examples\<close>

definition no_candidates :: store where
  "no_candidates = (init_store 0)\<lparr>candidates := [], candidates_seq := 0\<rparr>"

definition disk_failure :: faults where
  "disk_failure = (\<lambda>k. Some ''SQLITE_IOERR: disk I/O error'')"

definition locked_second :: faults where
  "locked_second = healthy(1 := Some ''SQLITE_BUSY: database is locked'')"

definition four_calls :: "(faults \<times> nat \<times> jsval) list" where
  "four_calls =
     [(healthy, 1, JStr ''Ann''), (healthy, 2, JStr ''   ''), (disk_failure, 3, JStr ''Bob''),
      (healthy, 4, JStr '' Cy '')]"

definition seven_votes :: store where
  "seven_votes =
     (init_store 0)
       \<lparr>votes := map (\<lambda>i. \<lparr>vid = i, voter_name = ''voter'' @ [char_of (48 + nat i)],
                              candidate_id = 1 + i mod 4, timestamp = 10\<rparr>)
                   [1, 2, 3, 4, 5, 6, 7],
        settings := [\<lparr>skey = ''results_published'', svalue = ''true'', updated_at = 20\<rparr>,
                     \<lparr>skey = ''winner_announced'', svalue = ''false'', updated_at = 0\<rparr>],
        votes_seq := 7\<rparr>"

definition published_store :: store where
  "published_store = snd (publish_results healthy 5 (JBool True) (init_store 0))"

definition alice_voted :: store where
  "alice_voted = snd (cast_vote healthy 5 (JStr ''Alice'') (Some 1) (init_store 0))"

definition voted_and_published :: store where
  "voted_and_published = snd (publish_results healthy 6 (JBool True) alice_voted)"

text \<open>
  Two votes under way at once, of \<open>Alice\<close> for the first candidate and of \<open>ALICE\<close> for the
  second: both requests arrive, then the database carries out the check of the first and
  that of the second, the two lookups of the candidate, and the two inserts. Each
  statement is carried out in the order in which it was handed over, and none fails.
\<close>

definition two_alices :: "event list" where
  "two_alices =
     [Arrive (PostVotes (JStr ''Alice'') (Some 1)), Arrive (PostVotes (JStr ''ALICE'') (Some 2)),
      Execute 0 None 1, Execute 0 None 1, Execute 0 None 2, Execute 0 None 2,
      Execute 0 None 3, Execute 0 None 3]"

text \<open>
  The name Emile with an acute accent on its first letter, once a capital and once small:
  the characters 0xC9 and 0xE9 of Latin-1.
\<close>

definition Emile :: string where
  "Emile = CHR 0xC9 # ''mile''"

definition emile :: string where
  "emile = CHR 0xE9 # ''mile''"


definition emile_calls :: "(faults \<times> nat \<times> jsval \<times> int option) list" where
  "emile_calls = [(healthy, 5, JStr Emile, Some 1), (healthy, 6, JStr emile, Some 1)]"

text \<open>
  Three candidates and one vote by another voter for each entry of a list of candidate
  ids.
\<close>

definition ballots :: "int list \<Rightarrow> store" where
  "ballots cs =
     (init_store 0)
       \<lparr>candidates := take 3 (candidates (init_store 0)),
        votes := map (\<lambda>(i, c). \<lparr>vid = int i + 1, voter_name = replicate (Suc i) CHR ''a'',
                                   candidate_id = c, timestamp = 1\<rparr>)
                   (enumerate 0 cs),
        votes_seq := int (length cs)\<rparr>"

text \<open>
  A database with eighty votes of eighty voters, 23 for the first candidate and 57 for the
  second.
\<close>

definition eighty_votes :: store where
  "eighty_votes =
     (init_store 0)
       \<lparr>votes := map (\<lambda>i. \<lparr>vid = int i + 1, voter_name = replicate (Suc i) CHR ''a'',
                              candidate_id = (if i < 23 then 1 else 2), timestamp = 1\<rparr>)
                   [0..<80],
        votes_seq := 80\<rparr>"

section \<open>The handlers and the server\<close>

lemma js_not_iff [simp]: "js_not x \<longleftrightarrow> \<not> truthy x"
  by (simp add: js_not_def)

lemma run_events_append:
  "run_events (es @ fs) sv =
     (let (rs, sv') = run_events es sv; (rs', sv'') = run_events fs sv' in (rs @ rs', sv''))"
  by (induction es arbitrary: sv) (simp_all add: split_beta)

lemma serving_run_events: "serving sv \<Longrightarrow> serving (snd (run_events es sv))"
proof (induction es arbitrary: sv)
  case Nil
  then show ?case by simp
next
  case (Cons e es)
  from Cons.IH[OF serving.step[OF Cons.prems, of e]] show ?case by (simp add: split_beta)
qed

lemma execute_last:
  "server_step (Execute (length q) err now) (s, q @ [p]) =
     (case statement err now p s of
        (s', r, p') \<Rightarrow>
          (case r of None \<Rightarrow> [] | Some r' \<Rightarrow> [r'],
           (s', q @ (case p' of None \<Rightarrow> [] | Some p'' \<Rightarrow> [p'']))))"
  by (simp add: split_beta)

lemma execute_none: "server_step (Execute (length q) err now) (s, q) = ([], (s, q))"
  by simp

lemma arrive_step:
  "server_step (Arrive req) (s, q) =
     (case start req of Inl r \<Rightarrow> ([r], (s, q)) | Inr p \<Rightarrow> ([], (s, q @ [p])))"
  by simp

lemmas alone_simps =
  alone_def arrive_step execute_last execute_none[of "q @ []" for q, simplified] execute_none
  storage_error_def Let_def update_candidate_name_def delete_candidate_row_def insert_vote_def
  delete_votes_def

lemma alone_handle:
  "run_events (alone (length q) db now req) (s, q) =
     ([fst (handle db now req s)], (snd (handle db now req s), q))"
proof (cases req)
  case GetCandidates
  then show ?thesis
    by (cases "db 0"; cases "db 1"; cases "db 2")
      (simp_all add: alone_simps get_candidates_def del: server_step.simps(2) split: sum.splits)
next
  case (PostCandidates name)
  then show ?thesis
    by (cases "db 0"; cases "db 1"; cases "db 2"; cases "trim_of name")
      (simp_all add: alone_simps add_candidate_def del: server_step.simps(2) split: sum.splits)
next
  case (PutCandidate i name)
  then show ?thesis
    by (cases "db 0"; cases "db 1"; cases "db 2"; cases "trim_of name")
      (simp_all add: alone_simps update_candidate_def del: server_step.simps(2) split: sum.splits)
next
  case (DeleteCandidate i)
  then show ?thesis
    by (cases "db 0"; cases "db 1"; cases "db 2")
      (simp_all add: alone_simps delete_candidate_def del: server_step.simps(2) split: sum.splits)
next
  case (PostVotes n c)
  then show ?thesis
    by (cases "db 0"; cases "db 1"; cases "db 2"; cases "trim_of n")
      (simp_all add: alone_simps cast_vote_def del: server_step.simps(2) split: sum.splits)
next
  case GetResults
  then show ?thesis
    by (cases "db 0"; cases "db 1"; cases "db 2")
      (simp_all add: alone_simps get_results_def del: server_step.simps(2) split: sum.splits)
next
  case GetVoters
  then show ?thesis
    by (cases "db 0"; cases "db 1"; cases "db 2")
      (simp_all add: alone_simps get_voters_def del: server_step.simps(2) split: sum.splits)
next
  case (GetVoterCheck n)
  then show ?thesis
    by (cases "db 0"; cases "db 1"; cases "db 2")
      (simp_all add: alone_simps check_voter_def del: server_step.simps(2) split: sum.splits)
next
  case (PostPublish p)
  then show ?thesis
    by (cases "db 0"; cases "db 1"; cases "db 2")
      (simp_all add: alone_simps publish_results_def del: server_step.simps(2) split: sum.splits)
next
  case GetSettings
  then show ?thesis
    by (cases "db 0"; cases "db 1"; cases "db 2")
      (simp_all add: alone_simps get_settings_def del: server_step.simps(2) split: sum.splits)
next
  case DeleteVotes
  then show ?thesis
    by (cases "db 0"; cases "db 1"; cases "db 2")
      (simp_all add: alone_simps reset_votes_def del: server_step.simps(2) split: sum.splits)
next
  case (PostAdminLogin u p)
  then show ?thesis
    by (simp add: alone_simps admin_login_def del: server_step.simps(2))
next
  case MalformedBody
  then show ?thesis
    by (simp add: alone_simps del: server_step.simps(2))
qed

lemma run_Nil [simp]: "run [] s = ([], s)"
  by (simp add: run_def)

lemma run_Cons [simp]:
  "run ((db, now, req) # es) s =
     (let (r, s') = handle db now req s; (rs, s'') = run es s' in (r # rs, s''))"
  using alone_handle[of "[]" db now req s]
  by (simp add: run_def run_events_append split_beta)

lemma reachable_init: "reachable (init_store t)"
  by (rule reachable.db[OF serving.fresh])

lemma reachable_handle:
  assumes "reachable s"
  shows "reachable (snd (handle db now req s))"
proof -
  from assms obtain q where "serving (s, q)" by (auto elim: reachable.cases)
  from serving_run_events[OF this, of "alone (length q) db now req"]
  show ?thesis by (simp add: alone_handle reachable.db)
qed

section \<open>Trimming and letter case\<close>

lemma char_of_eq: "char_of (n::nat) = c \<longleftrightarrow> n mod 256 = of_char c"
  by (simp add: char_of_eq_iff take_bit_eq_mod)

lemma eq_char_of: "c = char_of (n::nat) \<longleftrightarrow> n mod 256 = of_char c"
  using char_of_eq[of n c] by auto

lemma dropWhile_hd_id: "xs = [] \<or> \<not> P (hd xs) \<Longrightarrow> dropWhile P xs = xs"
  by (cases xs) auto


lemma js_trim_ends:
  assumes "js_trim s \<noteq> []"
  shows "\<not> is_space (hd (js_trim s))" "\<not> is_space (last (js_trim s))"
proof -
  define u where "u = dropWhile is_space s"
  define w where "w = dropWhile is_space (rev u)"
  have t: "js_trim s = rev w" by (simp add: js_trim_def u_def w_def)
  have w: "w \<noteq> []" using assms by (simp add: t)
  have u: "u = rev w @ rev (takeWhile is_space (rev u))"
    using takeWhile_dropWhile_id[of is_space "rev u"] unfolding w_def[symmetric]
    by (metis rev_append rev_rev_ident)
  then have "u \<noteq> []" using w by auto
  then have "\<not> is_space (hd u)"
    unfolding u_def using hd_dropWhile[of is_space s] by blast
  moreover have "hd u = hd (rev w)" using u w by (metis hd_append2 rev_is_Nil_conv)
  ultimately show "\<not> is_space (hd (js_trim s))" by (simp add: t)
  have "\<not> is_space (hd w)"
    using w unfolding w_def by (rule hd_dropWhile)
  then show "\<not> is_space (last (js_trim s))" using w by (simp add: t last_rev)
qed

lemma js_trim_fixed:
  assumes "x = [] \<or> \<not> is_space (hd x) \<and> \<not> is_space (last x)"
  shows "js_trim x = x"
proof (cases "x = []")
  case True
  then show ?thesis by (simp add: js_trim_def)
next
  case False
  with assms have "dropWhile is_space x = x" "dropWhile is_space (rev x) = rev x"
    by (auto intro!: dropWhile_hd_id simp: hd_rev)
  then show ?thesis by (simp add: js_trim_def)
qed

lemma js_trim_idem: "js_trim (js_trim s) = js_trim s"
  using js_trim_ends[of s] by (intro js_trim_fixed) blast


lemma trim_of_cases:
  "(\<exists>n. x = JStr n \<and> trim_of x = Some (js_trim n)) \<or> ((\<forall>n. x \<noteq> JStr n) \<and> trim_of x = None)"
  by (cases x) (simp_all add: trim_of_def)

lemma trim_of_JStr [simp]: "trim_of (JStr n) = Some (js_trim n)"
  by (simp add: trim_of_def)

lemma trim_of_trimmed: "trim_of x = Some n \<Longrightarrow> js_trim n = n"
  using trim_of_cases[of x] by (auto simp: js_trim_idem)

section \<open>What holds of the server at any time\<close>

lemma server_step_cases:
  "(snd (server_step e (s, q)) = (s, q)) \<or>
   (\<exists>req p. e = Arrive req \<and> start req = Inr p \<and> snd (server_step e (s, q)) = (s, q @ [p])) \<or>
   (\<exists>i err now. e = Execute i err now \<and> i < length q \<and>
      snd (server_step e (s, q)) =
        (fst (statement err now (q ! i) s),
         take i q @ drop (Suc i) q @
         (case snd (snd (statement err now (q ! i) s)) of None \<Rightarrow> [] | Some p' \<Rightarrow> [p'])))"
  by (cases e) (auto simp: split_beta split: sum.splits)

lemma serving_induct [consumes 1, case_names init arrive execute]:
  assumes "serving sv"
    and "\<And>t. P (init_store t) []"
    and "\<And>s q req p. P s q \<Longrightarrow> start req = Inr p \<Longrightarrow> P s (q @ [p])"
    and "\<And>s q i err now. P s q \<Longrightarrow> i < length q \<Longrightarrow>
           P (fst (statement err now (q ! i) s))
             (take i q @ drop (Suc i) q @
              (case snd (snd (statement err now (q ! i) s)) of None \<Rightarrow> [] | Some p' \<Rightarrow> [p']))"
  shows "P (fst sv) (snd sv)"
  using assms(1)
proof (induction rule: serving.induct)
  case (fresh t)
  show ?case using assms(2) by simp
next
  case (step sv e)
  obtain s q where sv: "sv = (s, q)" by (cases sv)
  from server_step_cases[of e s q] step.IH assms(3,4) show ?case
    unfolding sv by (elim disjE exE conjE) simp_all
qed

lemma statement_setting_keys:
  "map skey (settings (fst (statement err now p s))) = map skey (settings s)"
  by (cases p)
    (auto simp: insert_candidate_def update_candidate_name_def delete_candidate_row_def
      shift_positions_after_def insert_vote_def update_setting_def delete_votes_def
      unpublish_def Let_def comp_def split: option.splits)

lemma serving_setting_keys:
  assumes "serving sv"
  shows "map skey (settings (fst sv)) = [''results_published'', ''winner_announced'']"
  using assms
proof (induction rule: serving_induct)
  case (init t)
  show ?case by (simp add: init_store_def)
next
  case (arrive s q req p)
  then show ?case by simp
next
  case (execute s q i err now)
  then show ?case by (simp add: statement_setting_keys)
qed

lemma reachable_setting_keys:
  "reachable s \<Longrightarrow> map skey (settings s) = [''results_published'', ''winner_announced'']"
  using serving_setting_keys by (auto elim!: reachable.cases)

lemma start_trimmed: "start req = Inr p \<Longrightarrow> trimmed_pending p"
proof (cases req)
  case (PostVotes n c)
  assume "start req = Inr p"
  with PostVotes show ?thesis
    using trim_of_trimmed[of n] by (auto split: if_splits option.splits)
qed (auto split: if_splits option.splits)

lemma statement_trimmed:
  assumes "trimmed_votes s" "trimmed_pending p"
  shows "trimmed_votes (fst (statement err now p s))"
    and "snd (snd (statement err now p s)) = Some p' \<Longrightarrow> trimmed_pending p'"
  using assms
  by (cases p;
      auto simp: trimmed_votes_def insert_candidate_def update_candidate_name_def
        delete_candidate_row_def shift_positions_after_def insert_vote_def update_setting_def
        delete_votes_def unpublish_def Let_def split: option.splits if_splits)+

lemma serving_trimmed:
  assumes "serving sv"
  shows "trimmed_votes (fst sv) \<and> (\<forall>p \<in> set (snd sv). trimmed_pending p)"
  using assms
proof (induction rule: serving_induct)
  case (init t)
  show ?case by (simp add: init_store_def trimmed_votes_def)
next
  case (arrive s q req p)
  then show ?case using start_trimmed by auto
next
  case (execute s q i err now)
  then have p: "trimmed_pending (q ! i)" by simp
  have "set (take i q) \<subseteq> set q" "set (drop (Suc i) q) \<subseteq> set q"
    by (auto dest: in_set_takeD in_set_dropD)
  then show ?case
    using execute statement_trimmed[OF _ p, of s err now]
    by (auto split: option.splits)
qed

lemma reachable_trimmed: "reachable s \<Longrightarrow> trimmed_votes s"
  using serving_trimmed by (auto elim!: reachable.cases)

lemma Max_insert_fresh:
  fixes cs :: "candidate list"
  shows "Max (insert k (set (map cid cs))) + 1 \<notin> set (map cid cs)"
proof
  assume "Max (insert k (set (map cid cs))) + 1 \<in> set (map cid cs)"
  then have "Max (insert k (set (map cid cs))) + 1 \<le> Max (insert k (set (map cid cs)))"
    by (intro Max_ge) auto
  then show False by simp
qed

lemma statement_cids:
  assumes "distinct (map cid (candidates s))"
  shows "distinct (map cid (candidates (fst (statement err now p s))))"
proof (cases p)
  case (InsertCandidate n i)
  then show ?thesis
    using assms Max_insert_fresh[of "candidates_seq s" "candidates s"]
    by (auto simp: insert_candidate_def Let_def split: option.splits)
next
  case (UpdateCandidateName n i)
  have "cid \<circ> (\<lambda>c. if cid c = i then c\<lparr>cname := n\<rparr> else c) = cid"
    by (rule ext) simp
  note eq = this
  show ?thesis
    using assms UpdateCandidateName
    by (simp add: update_candidate_name_def eq split: option.splits)
next
  case (DeleteCandidateRow i)
  then show ?thesis
    using assms distinct_map_filter[of cid "candidates s"]
    by (auto simp: delete_candidate_row_def Let_def split: option.splits)
next
  case (ShiftPositions i)
  have "cid \<circ> (\<lambda>c. if P c then c\<lparr>cposition := cposition c - 1\<rparr> else c) = cid" for P
    by (rule ext) simp
  note eq = this
  show ?thesis
    using assms ShiftPositions by (simp add: shift_positions_after_def eq split: option.splits)
qed (use assms in \<open>auto simp: insert_vote_def update_setting_def delete_votes_def unpublish_def
      Let_def split: option.splits\<close>)

lemma reachable_cids: "reachable s \<Longrightarrow> distinct (map cid (candidates s))"
proof -
  have "distinct (map cid (candidates (fst sv)))" if "serving sv" for sv
    using that
  proof (induction rule: serving_induct)
    case (init t)
    show ?case by (simp add: init_store_def default_candidates_def)
  next
    case (arrive s q req p)
    then show ?case by simp
  next
    case (execute s q i err now)
    then show ?case by (simp add: statement_cids)
  qed
  then show "reachable s \<Longrightarrow> distinct (map cid (candidates s))"
    by (auto elim!: reachable.cases)
qed

text \<open>
  No step of the server changes the votes, but for two: the insert of a vote, which
  records one vote and is answered 200, and the deletion of all votes.
\<close>

lemma statement_votes:
  "votes (fst (statement err now p s)) = votes s \<or>
   (p = DeleteVotesAll \<and> votes (fst (statement err now p s)) = []) \<or>
   (\<exists>n c k. p = InsertVote n c \<and>
      statement err now p s =
        (s\<lparr>votes := votes s @ [\<lparr>vid = k, voter_name = n, candidate_id = c, timestamp = now\<rparr>],
           votes_seq := k\<rparr>,
         Some (Response 200 (VoteCast k ''Vote cast successfully'')), None))"
  by (cases p)
    (auto simp: insert_candidate_def update_candidate_name_def delete_candidate_row_def
      shift_positions_after_def insert_vote_def update_setting_def delete_votes_def
      unpublish_def Let_def split: option.splits)

lemma server_step_votes:
  "votes (fst (snd (server_step e (s, q)))) = votes s \<or>
   votes (fst (snd (server_step e (s, q)))) = [] \<or>
   (\<exists>i now n c k. e = Execute i None now \<and> i < length q \<and> q ! i = InsertVote n c \<and>
      votes (fst (snd (server_step e (s, q)))) =
        votes s @ [\<lparr>vid = k, voter_name = n, candidate_id = c, timestamp = now\<rparr>] \<and>
      fst (server_step e (s, q)) = [Response 200 (VoteCast k ''Vote cast successfully'')])"
proof (cases e)
  case (Arrive req)
  then show ?thesis by (auto split: sum.splits)
next
  case (Execute i err now)
  show ?thesis
  proof (cases "i < length q")
    case False
    with Execute show ?thesis by simp
  next
    case True
    from statement_votes[of err now "q ! i" s] show ?thesis
    proof (elim disjE exE conjE)
      assume "votes (fst (statement err now (q ! i) s)) = votes s"
      with Execute True show ?thesis by (simp add: split_beta)
    next
      assume "votes (fst (statement err now (q ! i) s)) = []"
      with Execute True show ?thesis by (simp add: split_beta)
    next
      fix n c k
      assume p: "q ! i = InsertVote n c"
        and st: "statement err now (q ! i) s =
        (s\<lparr>votes := votes s @ [\<lparr>vid = k, voter_name = n, candidate_id = c, timestamp = now\<rparr>],
           votes_seq := k\<rparr>,
         Some (Response 200 (VoteCast k ''Vote cast successfully'')), None)"
      have "err = None" using st p by (cases err) (auto simp: storage_error_def)
      with Execute True p st show ?thesis by auto
    qed
  qed
qed

section \<open>Candidates\<close>

lemma or_zero_simps [simp]: "or_zero None = 0" "or_zero (Some n) = n"
  by (simp_all add: or_zero_def)

lemma max_position_fresh:
  "cs \<noteq> [] \<Longrightarrow> Max (set (map cposition cs)) + 1 \<notin> set (map cposition cs)"
proof
  assume "cs \<noteq> []" and "Max (set (map cposition cs)) + 1 \<in> set (map cposition cs)"
  then have "Max (set (map cposition cs)) + 1 \<le> Max (set (map cposition cs))"
    by (intro Max_ge) auto
  then show False by simp
qed

lemma add_candidate_invalid:
  "\<not> truthy name \<or> (\<exists>n. name = JStr n \<and> js_trim n = []) \<Longrightarrow>
   add_candidate db now name s = (Response 400 (ErrorBody ''Candidate name is required''), s)"
  by (auto simp: add_candidate_def)

lemma add_candidate_throws:
  "truthy name \<and> (\<forall>n. name \<noteq> JStr n) \<Longrightarrow>
   add_candidate db now name s = (Response 500 (ErrorBody ''Something went wrong!''), s)"
  using trim_of_cases[of name] by (auto simp: add_candidate_def error_middleware_def)

lemma next_position_code: "or_zero (select_max_position s) + 1 = next_position s"
  by (simp add: select_max_position_def next_position_def)

lemma add_candidate_valid:
  assumes "name = JStr n" "js_trim n \<noteq> []"
  shows "add_candidate healthy now name s =
     (Response 200
        (CandidateAdded (Max (insert (candidates_seq s) (set (map cid (candidates s)))) + 1)
           (js_trim n) (next_position s) ''Candidate added successfully''),
      s\<lparr>candidates := candidates s @
           [\<lparr>cid = Max (insert (candidates_seq s) (set (map cid (candidates s)))) + 1,
             cname = js_trim n, cposition = next_position s, created_at = now\<rparr>],
        candidates_seq := Max (insert (candidates_seq s) (set (map cid (candidates s)))) + 1\<rparr>)"
proof -
  have n: "n \<noteq> []" using assms(2) by (auto simp: js_trim_def)
  have fresh: "next_position s \<notin> set (map cposition (candidates s))"
    using max_position_fresh[of "candidates s"] by (auto simp: next_position_def)
  show ?thesis
    using assms n fresh unfolding add_candidate_def next_position_code
    by (simp add: healthy_def insert_candidate_def Let_def)
qed

lemma add_candidate_cases:
  "(status (fst (add_candidate db now name s)) \<noteq> 200 \<and> snd (add_candidate db now name s) = s) \<or>
   (status (fst (add_candidate db now name s)) = 200 \<and>
    (\<exists>i. candidates (snd (add_candidate db now name s)) =
       candidates s @
       [\<lparr>cid = i, cname = the (trim_of name), cposition = next_position s, created_at = now\<rparr>]))"
  unfolding add_candidate_def next_position_code
  by (auto simp: storage_error_def error_middleware_def insert_candidate_def Let_def
      split: option.splits)

lemma next_position_dense:
  assumes "map cposition (candidates s) = map int [1..<Suc m]"
  shows "next_position s = int m + 1"
proof (cases m)
  case 0
  with assms show ?thesis by (simp add: next_position_def)
next
  case (Suc k)
  with assms have ne: "candidates s \<noteq> []" by auto
  have "Max (set (map int [1..<Suc m])) = int m"
  proof (rule Max_eqI)
    show "finite (set (map int [1..<Suc m]))" by simp
    show "\<And>y. y \<in> set (map int [1..<Suc m]) \<Longrightarrow> y \<le> int m" by auto
    show "int m \<in> set (map int [1..<Suc m])" using Suc by simp
  qed
  then show ?thesis using assms ne by (simp add: next_position_def)
qed

lemma run_post_candidates:
  assumes "map cposition (candidates s) = map int [1..<Suc m]"
  shows "map cposition (candidates (snd (run (post_candidates calls) s))) =
           map int [1..<Suc (m + length (succeeded calls (fst (run (post_candidates calls) s))))] \<and>
         map cname (candidates (snd (run (post_candidates calls) s))) =
           map cname (candidates s) @
           map (\<lambda>(db, now, name). the (trim_of name))
             (succeeded calls (fst (run (post_candidates calls) s)))"
  using assms
proof (induction calls arbitrary: s m)
  case Nil
  then show ?case by (simp add: post_candidates_def succeeded_def)
next
  case (Cons c calls)
  obtain db now name where c: "c = (db, now, name)" by (cases c) auto
  let ?r = "fst (add_candidate db now name s)"
  let ?s = "snd (add_candidate db now name s)"
  have run: "run (post_candidates (c # calls)) s =
      (?r # fst (run (post_candidates calls) ?s), snd (run (post_candidates calls) ?s))"
    by (simp add: post_candidates_def c split_beta)
  consider (fail) "status ?r \<noteq> 200" "?s = s"
    | (ok) i where "status ?r = 200"
        "candidates ?s = candidates s @
           [\<lparr>cid = i, cname = the (trim_of name), cposition = next_position s,
             created_at = now\<rparr>]"
    using add_candidate_cases[of db now name s] by blast
  then show ?case
  proof cases
    case fail
    then show ?thesis
      using Cons.IH[of s m] Cons.prems unfolding run by (simp add: succeeded_def)
  next
    case ok
    have "map cposition (candidates ?s) = map int [1..<Suc (Suc m)]"
      using ok(2) Cons.prems next_position_dense[OF Cons.prems] by simp
    from Cons.IH[OF this] show ?thesis
      using ok unfolding run by (simp add: succeeded_def c)
  qed
qed

lemmas add_candidate_eval =
  add_candidate_def healthy_def disk_failure_def trim_of_def js_trim_def is_space_def
  select_max_position_def insert_candidate_def storage_error_def error_middleware_def
  or_zero_def init_store_def default_candidates_def

text \<open>
  C6, as the code has it. \<open>addCandidate\<close> answers a name that is missing, empty or white
  space only with status 400, and a name that is there and is no string with status 500,
  and changes nothing. On any other name, the storage working, it appends a candidate with
  the trimmed name at the largest position plus one, position 1 when there is no
  candidate. From a database without candidates, the candidates after any sequence of
  calls, each answered before the next, are those of the calls that succeeded, in the
  order of the calls, at the positions 1 to N.
\<close>

theorem add_candidate_positions:
  "(\<not> truthy name \<or> (\<exists>n. name = JStr n \<and> js_trim n = []) \<longrightarrow>
      add_candidate db now name s = (Response 400 (ErrorBody ''Candidate name is required''), s)) \<and>
   (truthy name \<and> (\<forall>n. name \<noteq> JStr n) \<longrightarrow>
      add_candidate db now name s = (Response 500 (ErrorBody ''Something went wrong!''), s)) \<and>
   (\<forall>n. name = JStr n \<and> js_trim n \<noteq> [] \<longrightarrow>
      (\<exists>i. add_candidate healthy now name s =
         (Response 200
            (CandidateAdded i (js_trim n)
               (if candidates s = [] then 1 else Max (set (map cposition (candidates s))) + 1)
               ''Candidate added successfully''),
          s\<lparr>candidates := candidates s @
               [\<lparr>cid = i, cname = js_trim n,
                 cposition =
                   (if candidates s = [] then 1 else Max (set (map cposition (candidates s))) + 1),
                 created_at = now\<rparr>],
            candidates_seq := i\<rparr>))) \<and>
   (candidates s = [] \<longrightarrow>
      map cposition (candidates (snd (run (post_candidates calls) s))) =
        map int [1..<Suc (length (succeeded calls (fst (run (post_candidates calls) s))))] \<and>
      map cname (candidates (snd (run (post_candidates calls) s))) =
        map (\<lambda>(db, now, name). the (trim_of name))
          (succeeded calls (fst (run (post_candidates calls) s))))"
proof (intro conjI impI allI)
  assume "\<not> truthy name \<or> (\<exists>n. name = JStr n \<and> js_trim n = [])"
  then show "add_candidate db now name s =
      (Response 400 (ErrorBody ''Candidate name is required''), s)"
    by (rule add_candidate_invalid)
next
  assume "truthy name \<and> (\<forall>n. name \<noteq> JStr n)"
  then show "add_candidate db now name s =
      (Response 500 (ErrorBody ''Something went wrong!''), s)"
    by (rule add_candidate_throws)
next
  fix n
  assume "name = JStr n \<and> js_trim n \<noteq> []"
  then have n: "name = JStr n" "js_trim n \<noteq> []" by auto
  from add_candidate_valid[OF this, of now s]
  show "\<exists>i. add_candidate healthy now name s =
         (Response 200
            (CandidateAdded i (js_trim n)
               (if candidates s = [] then 1 else Max (set (map cposition (candidates s))) + 1)
               ''Candidate added successfully''),
          s\<lparr>candidates := candidates s @
               [\<lparr>cid = i, cname = js_trim n,
                 cposition =
                   (if candidates s = [] then 1 else Max (set (map cposition (candidates s))) + 1),
                 created_at = now\<rparr>],
            candidates_seq := i\<rparr>)"
    unfolding next_position_def by auto
next
  assume e: "candidates s = []"
  then have "map cposition (candidates s) = map int [1..<Suc 0]" by simp
  from run_post_candidates[OF this, of calls] e
  show "map cposition (candidates (snd (run (post_candidates calls) s))) =
        map int [1..<Suc (length (succeeded calls (fst (run (post_candidates calls) s))))]"
    and "map cname (candidates (snd (run (post_candidates calls) s))) =
        map (\<lambda>(db, now, name). the (trim_of name))
          (succeeded calls (fst (run (post_candidates calls) s)))"
    by simp_all
qed

text \<open>
  A name that is no string: the number 123 is not empty and not white space; the handler
  calls \<open>trim\<close> on it, which numbers do not have, and the error-handling middleware
  answers 500. No candidate is created.
\<close>

theorem add_candidate_number_name:
  "truthy (JNum 123) \<and>
   add_candidate healthy 7 (JNum 123) (init_store 0) =
     (Response 500 (ErrorBody ''Something went wrong!''), init_store 0) \<and>
   map cname (candidates (snd (add_candidate healthy 7 (JNum 123) (init_store 0)))) =
     [''Alice Johnson'', ''Bob Smith'', ''Carol Wilson'', ''David Brown'']"
  by (simp add: add_candidate_eval)

lemma four_calls_responses:
  "map status (fst (run (post_candidates four_calls) no_candidates)) = [200, 400, 500, 200]"
  by (simp add: four_calls_def post_candidates_def no_candidates_def add_candidate_eval)

lemma four_calls_run:
  "succeeded four_calls (fst (run (post_candidates four_calls) no_candidates)) =
     [(healthy, 1, JStr ''Ann''), (healthy, 4, JStr '' Cy '')]"
  by (simp add: four_calls_def post_candidates_def no_candidates_def succeeded_def
      add_candidate_eval)

text \<open>
  The fifth candidate, after the four of a fresh database, gets position 5; a blank name,
  no name and the name \<open>true\<close> create none; of four calls on a database without
  candidates, one with a blank name and one that meets a failure of the storage, the other
  two leave the positions 1 and 2.
\<close>

theorem add_candidate_positions_witness:
  "js_trim '' Eve '' \<noteq> [] \<and>
   fst (add_candidate healthy 7 (JStr '' Eve '') (init_store 0)) =
     Response 200 (CandidateAdded 5 ''Eve'' 5 ''Candidate added successfully'') \<and>
   js_trim '' '' = [] \<and>
   add_candidate healthy 7 (JStr '' '') (init_store 0) =
     (Response 400 (ErrorBody ''Candidate name is required''), init_store 0) \<and>
   \<not> truthy JUndefined \<and>
   add_candidate healthy 7 JUndefined (init_store 0) =
     (Response 400 (ErrorBody ''Candidate name is required''), init_store 0) \<and>
   truthy (JBool True) \<and>
   add_candidate healthy 7 (JBool True) (init_store 0) =
     (Response 500 (ErrorBody ''Something went wrong!''), init_store 0) \<and>
   candidates no_candidates = [] \<and>
   map status (fst (run (post_candidates four_calls) no_candidates)) = [200, 400, 500, 200] \<and>
   map cposition (candidates (snd (run (post_candidates four_calls) no_candidates))) = [1, 2] \<and>
   map cname (candidates (snd (run (post_candidates four_calls) no_candidates))) =
     [''Ann'', ''Cy'']"
proof -
  have t: "js_trim '' Eve '' = ''Eve''" "js_trim '' '' = []" "js_trim ''Ann'' = ''Ann''"
    "js_trim '' Cy '' = ''Cy''"
    by (simp_all add: js_trim_def is_space_def)
  have e: "candidates no_candidates = []" by (simp add: no_candidates_def)
  have "\<exists>i. add_candidate healthy 7 (JStr '' Eve '') (init_store 0) =
         (Response 200 (CandidateAdded i ''Eve'' 5 ''Candidate added successfully''),
          (init_store 0)\<lparr>candidates := candidates (init_store 0) @
               [\<lparr>cid = i, cname = ''Eve'', cposition = 5, created_at = 7\<rparr>],
            candidates_seq := i\<rparr>)"
    using add_candidate_positions[of "JStr '' Eve ''" healthy 7 "init_store 0" four_calls]
    by (simp add: t init_store_def default_candidates_def)
  then obtain i where
    "add_candidate healthy 7 (JStr '' Eve '') (init_store 0) =
         (Response 200 (CandidateAdded i ''Eve'' 5 ''Candidate added successfully''),
          (init_store 0)\<lparr>candidates := candidates (init_store 0) @
               [\<lparr>cid = i, cname = ''Eve'', cposition = 5, created_at = 7\<rparr>],
            candidates_seq := i\<rparr>)"
    by blast
  moreover have "candidates_seq (snd (add_candidate healthy 7 (JStr '' Eve '') (init_store 0))) = 5"
    by (simp add: add_candidate_eval)
  ultimately have i: "fst (add_candidate healthy 7 (JStr '' Eve '') (init_store 0)) =
     Response 200 (CandidateAdded 5 ''Eve'' 5 ''Candidate added successfully'')"
    by simp
  have "map cposition (candidates (snd (run (post_candidates four_calls) no_candidates))) =
          [1, 2] \<and>
        map cname (candidates (snd (run (post_candidates four_calls) no_candidates))) =
          [''Ann'', ''Cy'']"
    using add_candidate_positions[of JNull healthy 7 no_candidates four_calls] e
    by (simp add: four_calls_run t)
  moreover have "add_candidate healthy 7 (JStr '' '') (init_store 0) =
     (Response 400 (ErrorBody ''Candidate name is required''), init_store 0)"
    using add_candidate_positions[of "JStr '' ''" healthy 7 "init_store 0" four_calls]
    by (simp add: t)
  moreover have "add_candidate healthy 7 JUndefined (init_store 0) =
     (Response 400 (ErrorBody ''Candidate name is required''), init_store 0)"
    using add_candidate_positions[of JUndefined healthy 7 "init_store 0" four_calls]
    by simp
  moreover have "add_candidate healthy 7 (JBool True) (init_store 0) =
     (Response 500 (ErrorBody ''Something went wrong!''), init_store 0)"
    using add_candidate_positions[of "JBool True" healthy 7 "init_store 0" four_calls]
    by simp
  ultimately show ?thesis
    using t e i four_calls_responses by simp
qed

text \<open>
  What deleting a candidate does to the others: nothing. The row is deleted before the
  statement that moves the later candidates up looks its position up, so the subquery of
  that statement has no row and no position changes.
\<close>

lemma select_position_of_deleted:
  "select_position_of i (snd (delete_candidate_row i s)) = None"
  by (simp add: select_position_of_def delete_candidate_row_def)

lemma shift_positions_after_deleted:
  "shift_positions_after i (snd (delete_candidate_row i s)) = snd (delete_candidate_row i s)"
  by (simp add: shift_positions_after_def select_position_of_deleted sql_greater_def)

lemma delete_candidate_keeps_positions:
  "candidates (snd (delete_candidate db i s)) = candidates s \<or>
   candidates (snd (delete_candidate db i s)) = filter (\<lambda>c. cid c \<noteq> i) (candidates s)"
  using shift_positions_after_deleted[of i s]
  by (auto simp: delete_candidate_def delete_candidate_row_def Let_def split: option.splits)

text \<open>
  C1. On a fresh database, with the candidates 1 to 4 at the positions 1 to 4 and no
  vote, deleting candidate 2 succeeds and leaves the candidates 1, 3 and 4 at the
  positions 1, 3 and 4: the positions after the deleted one are not decremented.
\<close>

theorem delete_candidate_leaves_gap:
  "fst (delete_candidate healthy 2 (init_store 0)) =
     Response 200 (MessageBody ''Candidate deleted successfully'') \<and>
   map (\<lambda>c. (cid c, cposition c)) (candidates (init_store 0)) =
     [(1, 1), (2, 2), (3, 3), (4, 4)] \<and>
   votes (init_store 0) = [] \<and>
   map (\<lambda>c. (cid c, cposition c)) (candidates (snd (delete_candidate healthy 2 (init_store 0)))) =
     [(1, 1), (3, 3), (4, 4)]"
  by (simp add: delete_candidate_def healthy_def init_store_def default_candidates_def
      count_votes_for_def delete_candidate_row_def shift_positions_after_def
      select_position_of_def sql_greater_def)

section \<open>Voters\<close>





lemma cast_vote_cases:
  "(status (fst (cast_vote db now voterName candidateId s)) \<noteq> 200 \<and>
    snd (cast_vote db now voterName candidateId s) = s) \<or>
   (status (fst (cast_vote db now voterName candidateId s)) = 200 \<and>
    \<not> select_vote_of (the (trim_of voterName)) s \<and>
    (\<exists>i. snd (cast_vote db now voterName candidateId s) =
       s\<lparr>votes := votes s @ [\<lparr>vid = i, voter_name = the (trim_of voterName),
                               candidate_id = the candidateId, timestamp = now\<rparr>],
         votes_seq := i\<rparr>))"
  by (auto simp: cast_vote_def storage_error_def error_middleware_def insert_vote_def Let_def
      split: option.splits)

lemmas cast_vote_eval =
  cast_vote_def healthy_def init_store_def default_candidates_def trim_of_def not_num_def
  select_vote_of_def select_candidate_def insert_vote_def js_trim_def is_space_def
  sql_lower_def lower_char_def storage_error_def error_middleware_def char_of_eq eq_char_of

lemma alice_voted_votes:
  "votes alice_voted = [\<lparr>vid = 1, voter_name = ''Alice'', candidate_id = 1, timestamp = 5\<rparr>]"
  by (simp add: alice_voted_def cast_vote_eval)




lemma emile_names:
  "js_trim Emile = Emile" "js_trim emile = emile" "fold_case Emile = emile"
  "fold_case emile = emile" "sql_lower Emile = Emile" "sql_lower emile = emile" "Emile \<noteq> emile"
  by (simp_all add: Emile_def emile_def js_trim_def is_space_def fold_case_def fold_char_def
      sql_lower_def lower_char_def char_of_eq eq_char_of)




text \<open>
  What a sequence of requests, each answered before the next is made, does to the votes.
\<close>

lemma handle_votes:
  "votes (snd (handle db now req s)) = votes s \<or>
   votes (snd (handle db now req s)) = [] \<or>
   (\<exists>n c. req = PostVotes n c \<and> status (fst (handle db now req s)) = 200)"
proof (cases req)
  case (PostVotes n c)
  then show ?thesis using cast_vote_cases[of db now n c s] by auto
next
  case (PostCandidates n)
  then show ?thesis
    by (auto simp: add_candidate_def insert_candidate_def Let_def split: option.splits)
next
  case (DeleteCandidate i)
  then show ?thesis
    by (auto simp: delete_candidate_def delete_candidate_row_def shift_positions_after_def
        Let_def split: option.splits)
next
  case DeleteVotes
  then show ?thesis
    by (auto simp: reset_votes_def delete_votes_def unpublish_def Let_def split: option.splits)
qed (auto simp: get_candidates_def update_candidate_def update_candidate_name_def
      get_results_def get_voters_def check_voter_def publish_results_def update_setting_def
      get_settings_def admin_login_def Let_def split: option.splits)

lemma trim_of_the_trimmed: "trim_of x \<noteq> None \<Longrightarrow> js_trim (the (trim_of x)) = the (trim_of x)"
  using trim_of_trimmed[of x] by auto

lemma voters_inv_cast_vote:
  assumes "voters_inv s"
  shows "voters_inv (snd (cast_vote db now voterName candidateId s))"
proof -
  consider (fail) "snd (cast_vote db now voterName candidateId s) = s"
    | (ok) i where "\<not> select_vote_of (the (trim_of voterName)) s"
        "status (fst (cast_vote db now voterName candidateId s)) = 200"
        "votes (snd (cast_vote db now voterName candidateId s)) =
           votes s @ [\<lparr>vid = i, voter_name = the (trim_of voterName),
                        candidate_id = the candidateId, timestamp = now\<rparr>]"
    using cast_vote_cases[of db now voterName candidateId s] by auto
  then show ?thesis
  proof cases
    case fail
    with assms show ?thesis by simp
  next
    case ok
    have "trim_of voterName \<noteq> None"
      using ok(2) by (auto simp: cast_vote_def error_middleware_def split: if_splits option.splits)
    then have t: "js_trim (the (trim_of voterName)) = the (trim_of voterName)"
      by (rule trim_of_the_trimmed)
    have "sql_lower (the (trim_of voterName)) \<notin> (\<lambda>v. sql_lower (voter_name v)) ` set (votes s)"
      using ok(1) by (auto simp: select_vote_of_def)
    then show ?thesis
      using assms t unfolding voters_inv_def trimmed_votes_def ok(3) by simp
  qed
qed

lemma voters_inv_handle:
  assumes "voters_inv s"
  shows "voters_inv (snd (handle db now req s))"
proof -
  consider "votes (snd (handle db now req s)) = votes s"
    | "votes (snd (handle db now req s)) = []"
    | n c where "req = PostVotes n c"
    using handle_votes[of db now req s] by blast
  then show ?thesis
  proof cases
    case 1
    with assms show ?thesis by (simp add: voters_inv_def trimmed_votes_def)
  next
    case 2
    then show ?thesis by (simp add: voters_inv_def trimmed_votes_def)
  next
    case 3
    with assms show ?thesis by (simp add: voters_inv_cast_vote)
  qed
qed

lemma run_voters_inv:
  "voters_inv s \<Longrightarrow> voters_inv (snd (run calls s))"
proof (induction calls arbitrary: s)
  case Nil
  then show ?case by simp
next
  case (Cons call calls)
  obtain db now req where call: "call = (db, now, req)" by (cases call) auto
  from Cons.IH[OF voters_inv_handle[OF Cons.prems, of db now req]]
  show ?case by (simp add: call split_beta)
qed

lemma run_post_votes:
  assumes "voters_inv s"
  shows "distinct (map (\<lambda>(db, now, n, c). sql_lower (the (trim_of n)))
           (succeeded calls (fst (run (post_votes calls) s)))) \<and>
         (\<forall>x \<in> set (succeeded calls (fst (run (post_votes calls) s))).
            (\<lambda>(db, now, n, c). sql_lower (the (trim_of n))) x
              \<notin> (\<lambda>v. sql_lower (voter_name v)) ` set (votes s))"
  using assms
proof (induction calls arbitrary: s)
  case Nil
  then show ?case by (simp add: succeeded_def post_votes_def)
next
  case (Cons call calls)
  obtain db now n c where call: "call = (db, now, n, c)" by (cases call) auto
  let ?r = "fst (cast_vote db now n c s)"
  let ?s = "snd (cast_vote db now n c s)"
  have run: "run (post_votes (call # calls)) s =
      (?r # fst (run (post_votes calls) ?s), snd (run (post_votes calls) ?s))"
    by (simp add: post_votes_def call split_beta)
  have inv: "voters_inv ?s" using Cons.prems by (rule voters_inv_cast_vote)
  note IH = Cons.IH[OF inv]
  consider (fail) "status ?r \<noteq> 200" "?s = s"
    | (ok) i where "status ?r = 200" "\<not> select_vote_of (the (trim_of n)) s"
        "votes ?s = votes s @ [\<lparr>vid = i, voter_name = the (trim_of n), candidate_id = the c,
                               timestamp = now\<rparr>]"
    using cast_vote_cases[of db now n c s] by auto
  then show ?case
  proof cases
    case fail
    then show ?thesis using IH unfolding run by (simp add: succeeded_def)
  next
    case ok
    have new: "sql_lower (the (trim_of n)) \<notin> (\<lambda>v. sql_lower (voter_name v)) ` set (votes s)"
      using ok(2) by (auto simp: select_vote_of_def)
    have rest: "\<forall>x \<in> set (succeeded calls (fst (run (post_votes calls) ?s))).
        (\<lambda>(db, now, n, c). sql_lower (the (trim_of n))) x \<noteq> sql_lower (the (trim_of n)) \<and>
        (\<lambda>(db, now, n, c). sql_lower (the (trim_of n))) x
              \<notin> (\<lambda>v. sql_lower (voter_name v)) ` set (votes s)"
      using IH ok(3) by auto
    have succ: "succeeded (call # calls) (fst (run (post_votes (call # calls)) s)) =
        call # succeeded calls (fst (run (post_votes calls) ?s))"
      unfolding run using ok(1) by (simp add: succeeded_def)
    show ?thesis
      unfolding succ using IH rest new by (auto simp: call)
  qed
qed

text \<open>
  Requests made one after the other, each answered before the next, leave no two votes
  whose voter names are equal up to the case of the letters \<open>A\<close> to \<open>Z\<close>, and of the votes
  of such a sequence no two that succeed have such names.
\<close>

lemma votes_one_after_the_other:
  "distinct (map (\<lambda>v. sql_lower (js_trim (voter_name v))) (votes (snd (run calls (init_store t)))))"
  "distinct (map (\<lambda>(db, now, n, c). sql_lower (the (trim_of n)))
     (succeeded vcalls (fst (run (post_votes vcalls) (snd (run calls (init_store t)))))))"
proof -
  have "voters_inv (init_store t)"
    by (simp add: voters_inv_def trimmed_votes_def init_store_def)
  then have inv: "voters_inv (snd (run calls (init_store t)))" by (rule run_voters_inv)
  then have eq: "map (\<lambda>v. sql_lower (js_trim (voter_name v))) (votes (snd (run calls (init_store t)))) =
             map (\<lambda>v. sql_lower (voter_name v)) (votes (snd (run calls (init_store t))))"
    by (simp add: voters_inv_def trimmed_votes_def)
  show "distinct (map (\<lambda>v. sql_lower (js_trim (voter_name v))) (votes (snd (run calls (init_store t)))))"
    unfolding eq using inv by (simp add: voters_inv_def)
  show "distinct (map (\<lambda>(db, now, n, c). sql_lower (the (trim_of n)))
     (succeeded vcalls (fst (run (post_votes vcalls) (snd (run calls (init_store t)))))))"
    using run_post_votes[OF inv, of vcalls] by simp
qed

lemma two_alices_run:
  "run_events two_alices (init_store 0, []) =
     ([Response 200 (VoteCast 1 ''Vote cast successfully''),
       Response 200 (VoteCast 2 ''Vote cast successfully'')],
      (init_store 0)
        \<lparr>votes := [\<lparr>vid = 1, voter_name = ''Alice'', candidate_id = 1, timestamp = 3\<rparr>,
                   \<lparr>vid = 2, voter_name = ''ALICE'', candidate_id = 2, timestamp = 3\<rparr>],
         votes_seq := 2\<rparr>,
      [])"
  by (simp add: two_alices_def cast_vote_eval)

lemma emile_calls_run:
  "map status (fst (run (post_votes emile_calls) (init_store 0))) = [200, 200]"
  "map voter_name (votes (snd (run (post_votes emile_calls) (init_store 0)))) = [Emile, emile]"
  by (simp_all add: emile_calls_def post_votes_def Emile_def emile_def cast_vote_eval)

text \<open>
  C2. Two votes under way at once, of \<open>Alice\<close> and of \<open>ALICE\<close>, both succeed when the
  database carries out the checks of both before the insert of either, and the server
  holds two votes whose voter names are equal after trimming and case folding: nothing
  keeps the statements of one request together, and the table of the votes has no
  constraint on the voter names. The same two votes one after the other are answered 200
  and 400. Of two votes one after the other whose names differ in the case of an accented
  letter, both succeed.
\<close>

theorem two_votes_of_one_voter:
  "fold_case (js_trim ''Alice'') = fold_case (js_trim ''ALICE'') \<and>
   fst (run_events two_alices (init_store 0, [])) =
     [Response 200 (VoteCast 1 ''Vote cast successfully''),
      Response 200 (VoteCast 2 ''Vote cast successfully'')] \<and>
   serving (snd (run_events two_alices (init_store 0, []))) \<and>
   reachable (fst (snd (run_events two_alices (init_store 0, [])))) \<and>
   map voter_name (votes (fst (snd (run_events two_alices (init_store 0, []))))) =
     [''Alice'', ''ALICE''] \<and>
   map status
     (fst (run [(healthy, 1, PostVotes (JStr ''Alice'') (Some 1)),
                (healthy, 2, PostVotes (JStr ''ALICE'') (Some 2))] (init_store 0))) =
     [200, 400] \<and>
   fold_case (js_trim Emile) = fold_case (js_trim emile) \<and>
   map status (fst (run (post_votes emile_calls) (init_store 0))) = [200, 200] \<and>
   map voter_name (votes (snd (run (post_votes emile_calls) (init_store 0)))) = [Emile, emile]"
proof -
  have 1: "fold_case (js_trim ''Alice'') = fold_case (js_trim ''ALICE'')"
    by (simp add: fold_case_def fold_char_def js_trim_def is_space_def char_of_eq eq_char_of)
  have 2: "serving (snd (run_events two_alices (init_store 0, [])))"
    by (intro serving_run_events serving.fresh)
  then have 3: "reachable (fst (snd (run_events two_alices (init_store 0, []))))"
    by (metis reachable.db prod.collapse)
  have 4: "map status
     (fst (run [(healthy, 1, PostVotes (JStr ''Alice'') (Some 1)),
                (healthy, 2, PostVotes (JStr ''ALICE'') (Some 2))] (init_store 0))) =
     [200, 400]"
    by (simp add: cast_vote_eval)
  show ?thesis
    using 1 2 3 4 emile_calls_run by (simp add: two_alices_run emile_names)
qed

text \<open>
  C5. After \<open>Alice\<close> has voted, the check of the name \<open> Alice\<close>, with a space in front,
  answers \<open>hasVoted: false\<close>, although the two names are equal once trimmed: the handler
  compares the name as it comes, where \<open>castVote\<close> trims it first.
\<close>

theorem check_voter_untrimmed:
  "map voter_name (votes alice_voted) = [''Alice''] \<and>
   spec_has_voted '' Alice'' alice_voted \<and>
   fst (check_voter healthy '' Alice'' alice_voted) = Response 200 (HasVotedBody False) \<and>
   fst (cast_vote healthy 6 (JStr '' Alice'') (Some 2) alice_voted) =
     Response 400 (ErrorBody ''You have already voted!'')"
  by (simp add: alice_voted_def spec_has_voted_def cast_vote_def healthy_def init_store_def
      default_candidates_def trim_of_def not_num_def select_vote_of_def select_candidate_def
      insert_vote_def js_trim_def is_space_def check_voter_def sql_lower_def lower_char_def
      fold_case_def fold_char_def)

section \<open>Resetting and publishing\<close>

lemma handle_setting_keys:
  "map skey (settings (snd (handle db now req s))) = map skey (settings s)"
proof (cases req)
  case (PostCandidates n)
  then show ?thesis
    by (auto simp: add_candidate_def insert_candidate_def Let_def split: option.splits)
next
  case (DeleteCandidate i)
  then show ?thesis
    by (auto simp: delete_candidate_def delete_candidate_row_def shift_positions_after_def
        Let_def split: option.splits)
next
  case (PostVotes n c)
  then show ?thesis
    by (auto simp: cast_vote_def insert_vote_def Let_def split: option.splits)
next
  case DeleteVotes
  then show ?thesis
    by (auto simp: reset_votes_def delete_votes_def unpublish_def Let_def comp_def
        split: option.splits)
qed (auto simp: get_candidates_def update_candidate_def update_candidate_name_def
      get_results_def get_voters_def check_voter_def publish_results_def update_setting_def
      get_settings_def admin_login_def Let_def comp_def split: option.splits)

lemma setting_value_of_key:
  assumes "k \<in> set (map skey rows)" "\<forall>r \<in> set rows. skey r = k \<longrightarrow> svalue r = v"
  shows "map_of (map (\<lambda>r. (skey r, svalue r)) rows) k = Some v"
proof -
  have "k \<in> fst ` set (map (\<lambda>r. (skey r, svalue r)) rows)"
    using assms(1) by (auto simp: image_iff)
  then obtain y where y: "map_of (map (\<lambda>r. (skey r, svalue r)) rows) k = Some y"
    by (metis map_of_eq_None_iff not_Some_eq)
  then have "(k, y) \<in> set (map (\<lambda>r. (skey r, svalue r)) rows)" by (rule map_of_SomeD)
  then have "y = v" using assms(2) by auto
  with y show ?thesis by simp
qed

lemma reachable_published_store: "reachable published_store"
proof -
  have "reachable (snd (handle healthy 5 (PostPublish (JBool True)) (init_store 0)))"
    by (intro reachable_handle reachable_init)
  then show ?thesis by (simp add: published_store_def)
qed

lemma reachable_voted_and_published: "reachable voted_and_published"
proof -
  have "reachable (snd (handle healthy 6 (PostPublish (JBool True))
          (snd (handle healthy 5 (PostVotes (JStr ''Alice'') (Some 1)) (init_store 0)))))"
    by (intro reachable_handle reachable_init)
  then show ?thesis by (simp add: voted_and_published_def alice_voted_def)
qed

text \<open>
  C7. \<open>resetVotes\<close>, the storage working, answers with the number of votes there were
  and leaves no vote, so that the list of voters is empty; it keeps the rows of the
  settings and leaves the value \<open>false\<close> in every row of the key \<open>results_published\<close>,
  which is the value of that setting in every database the server reaches.
\<close>

theorem reset_votes_clears:
  "fst (reset_votes healthy s) =
     Response 200 (VotesReset ''All votes reset successfully'' (length (votes s))) \<and>
   votes (snd (reset_votes healthy s)) = [] \<and>
   fst (get_voters healthy (snd (reset_votes healthy s))) = Response 200 (VotersBody []) \<and>
   map skey (settings (snd (reset_votes healthy s))) = map skey (settings s) \<and>
   (\<forall>r \<in> set (settings (snd (reset_votes healthy s))).
      skey r = ''results_published'' \<longrightarrow> svalue r = ''false'') \<and>
   (reachable s \<longrightarrow>
      map_of (map (\<lambda>r. (skey r, svalue r)) (settings (snd (reset_votes healthy s))))
        ''results_published'' = Some ''false'')"
proof -
  have 1: "fst (reset_votes healthy s) =
     Response 200 (VotesReset ''All votes reset successfully'' (length (votes s)))"
    "votes (snd (reset_votes healthy s)) = []"
    "fst (get_voters healthy (snd (reset_votes healthy s))) = Response 200 (VotersBody [])"
    by (simp_all add: reset_votes_def healthy_def delete_votes_def unpublish_def get_voters_def
      select_voters_def)
  have 2: "map skey (settings (snd (reset_votes healthy s))) = map skey (settings s)"
    using handle_setting_keys[of healthy 0 DeleteVotes s] by simp
  have 3: "\<forall>r \<in> set (settings (snd (reset_votes healthy s))).
      skey r = ''results_published'' \<longrightarrow> svalue r = ''false''"
    by (auto simp: reset_votes_def healthy_def delete_votes_def unpublish_def)
  have 4: "map_of (map (\<lambda>r. (skey r, svalue r)) (settings (snd (reset_votes healthy s))))
        ''results_published'' = Some ''false''" if "reachable s"
    using reachable_setting_keys[OF that] 2 3 by (intro setting_value_of_key) simp_all
  show ?thesis using 1 2 3 4 by blast
qed

text \<open>
  A database with seven votes and published results, and the database the server is in
  after a vote and the publication of the results.
\<close>

theorem reset_votes_clears_witness:
  "fst (reset_votes healthy seven_votes) =
     Response 200 (VotesReset ''All votes reset successfully'' 7) \<and>
   length (votes seven_votes) = 7 \<and>
   votes (snd (reset_votes healthy seven_votes)) = [] \<and>
   fst (get_voters healthy (snd (reset_votes healthy seven_votes))) =
     Response 200 (VotersBody []) \<and>
   map (\<lambda>r. (skey r, svalue r)) (settings seven_votes) =
     [(''results_published'', ''true''), (''winner_announced'', ''false'')] \<and>
   map (\<lambda>r. (skey r, svalue r)) (settings (snd (reset_votes healthy seven_votes))) =
     [(''results_published'', ''false''), (''winner_announced'', ''false'')] \<and>
   reachable voted_and_published \<and>
   map_of (map (\<lambda>r. (skey r, svalue r)) (settings voted_and_published))
     ''results_published'' = Some ''true'' \<and>
   map_of (map (\<lambda>r. (skey r, svalue r)) (settings (snd (reset_votes healthy voted_and_published))))
     ''results_published'' = Some ''false''"
proof -
  have len: "length (votes seven_votes) = 7"
    by (simp add: seven_votes_def)
  have before: "map (\<lambda>r. (skey r, svalue r)) (settings seven_votes) =
     [(''results_published'', ''true''), (''winner_announced'', ''false'')]"
    by (simp add: seven_votes_def)
  have after: "map (\<lambda>r. (skey r, svalue r)) (settings (snd (reset_votes healthy seven_votes))) =
     [(''results_published'', ''false''), (''winner_announced'', ''false'')]"
    by (simp add: seven_votes_def reset_votes_def healthy_def delete_votes_def unpublish_def)
  have published: "map_of (map (\<lambda>r. (skey r, svalue r)) (settings voted_and_published))
     ''results_published'' = Some ''true''"
    by (simp add: voted_and_published_def alice_voted_def publish_results_def update_setting_def
        cast_vote_eval)
  show ?thesis
    using reset_votes_clears[of seven_votes] reset_votes_clears[of voted_and_published]
      reachable_voted_and_published len before after published
    by simp
qed

text \<open>
  C10. \<open>POST /api/results/publish\<close> never answers 400. The storage working, it answers
  200 whatever the field \<open>publish\<close> is, keeps the rows of the settings and leaves in
  every row of the key \<open>results_published\<close> the string \<open>true\<close> when \<open>publish\<close> is truthy
  and \<open>false\<close> when it is not, as when the field is absent; in every database the server
  reaches that string is then the value of the setting.
\<close>

theorem publish_results_coerces:
  "status (fst (publish_results db now publish s)) \<noteq> 400 \<and>
   status (fst (publish_results healthy now publish s)) = 200 \<and>
   map skey (settings (snd (publish_results healthy now publish s))) = map skey (settings s) \<and>
   (\<forall>r \<in> set (settings (snd (publish_results healthy now publish s))).
      skey r = ''results_published'' \<longrightarrow>
      svalue r = (if truthy publish then ''true'' else ''false'')) \<and>
   (reachable s \<longrightarrow>
      map_of (map (\<lambda>r. (skey r, svalue r)) (settings (snd (publish_results healthy now publish s))))
        ''results_published'' = Some (if truthy publish then ''true'' else ''false'')) \<and>
   (reachable s \<longrightarrow>
      map_of (map (\<lambda>r. (skey r, svalue r))
                (settings (snd (publish_results healthy now JUndefined s))))
        ''results_published'' = Some ''false'')"
proof -
  have 1: "status (fst (publish_results db now publish s)) \<noteq> 400"
    "status (fst (publish_results healthy now publish s)) = 200"
    by (auto simp: publish_results_def healthy_def storage_error_def split: option.splits)
  have 2: "map skey (settings (snd (publish_results healthy now p s))) = map skey (settings s)"
    for p
    using handle_setting_keys[of healthy now "PostPublish p" s] by simp
  have 3: "\<forall>r \<in> set (settings (snd (publish_results healthy now p s))).
      skey r = ''results_published'' \<longrightarrow> svalue r = (if truthy p then ''true'' else ''false'')"
    for p
    by (auto simp: publish_results_def healthy_def update_setting_def)
  have 4: "map_of (map (\<lambda>r. (skey r, svalue r)) (settings (snd (publish_results healthy now p s))))
        ''results_published'' = Some (if truthy p then ''true'' else ''false'')"
    if "reachable s" for p
    using reachable_setting_keys[OF that] 2[of p] 3[of p] by (intro setting_value_of_key) simp_all
  show ?thesis using 1 2[of publish] 3[of publish] 4[of publish] 4[of JUndefined] by simp
qed

text \<open>A request without the field on a database whose results are published.\<close>

theorem publish_results_coerces_witness:
  "reachable published_store \<and>
   map (\<lambda>r. (skey r, svalue r)) (settings published_store) =
     [(''results_published'', ''true''), (''winner_announced'', ''false'')] \<and>
   status (fst (publish_results healthy 9 JUndefined published_store)) = 200 \<and>
   map_of (map (\<lambda>r. (skey r, svalue r))
             (settings (snd (publish_results healthy 9 JUndefined published_store))))
     ''results_published'' = Some ''false'' \<and>
   map (\<lambda>r. (skey r, svalue r))
     (settings (snd (publish_results healthy 9 JUndefined published_store))) =
     [(''results_published'', ''false''), (''winner_announced'', ''false'')]"
proof -
  have "map (\<lambda>r. (skey r, svalue r)) (settings published_store) =
     [(''results_published'', ''true''), (''winner_announced'', ''false'')]"
    "map (\<lambda>r. (skey r, svalue r))
       (settings (snd (publish_results healthy 9 JUndefined published_store))) =
     [(''results_published'', ''false''), (''winner_announced'', ''false'')]"
    by (simp_all add: published_store_def publish_results_def healthy_def update_setting_def
        init_store_def)
  then show ?thesis
    using publish_results_coerces[of healthy 9 JUndefined published_store]
      reachable_published_store
    by simp
qed

section \<open>Results\<close>

lemma math_max_Nil: "math_max [] = None"
  by (simp add: math_max_def)

lemma math_max_Max: "xs \<noteq> [] \<Longrightarrow> math_max xs = Some (Max (set xs))"
  by (cases xs) (simp_all add: math_max_def Max.set_eq_fold [symmetric])

lemma filter_single_nth:
  assumes "length (filter P xs) = 1"
  shows "\<exists>i<length xs. filter P xs = [xs ! i] \<and> P (xs ! i) \<and>
           (\<forall>j<length xs. j \<noteq> i \<longrightarrow> \<not> P (xs ! j))"
proof -
  from assms obtain y where y: "filter P xs = [y]"
    by (cases "filter P xs") auto
  then obtain us vs where xs: "xs = us @ y # vs" and us: "\<forall>u\<in>set us. \<not> P u"
    and Py: "P y" and vs: "filter P vs = []"
    by (auto simp: filter_eq_Cons_iff)
  have "\<not> P (xs ! j)" if "j < length xs" "j \<noteq> length us" for j
  proof (cases "j < length us")
    case True
    then show ?thesis using us by (simp add: xs nth_append)
  next
    case False
    with that have "xs ! j = vs ! (j - Suc (length us))" "j - Suc (length us) < length vs"
      by (auto simp: xs nth_append nth_Cons')
    then show ?thesis using vs by (auto simp: filter_empty_conv)
  qed
  then show ?thesis
    using y Py by (intro exI[of _ "length us"]) (auto simp: xs)
qed

lemma filter_nth_single:
  assumes "i < length xs" "P (xs ! i)" "\<forall>j<length xs. j \<noteq> i \<longrightarrow> \<not> P (xs ! j)"
  shows "filter P xs = [xs ! i]"
proof -
  have xs: "xs = take i xs @ xs ! i # drop (Suc i) xs"
    using assms(1) by (rule id_take_nth_drop)
  have 1: "filter P (take i xs) = []"
    using assms by (auto simp: filter_empty_conv in_set_conv_nth)
  have 2: "filter P (drop (Suc i) xs) = []"
    using assms by (auto simp: filter_empty_conv in_set_conv_nth)
  have "filter P xs = filter P (take i xs) @ filter P [xs ! i] @ filter P (drop (Suc i) xs)"
    by (subst xs) simp
  then show ?thesis using 1 2 assms(2) by simp
qed

lemma filter_many_nth:
  "1 < length (filter P xs) \<longleftrightarrow> (\<exists>i j. i < j \<and> j < length xs \<and> P (xs ! i) \<and> P (xs ! j))"
proof
  assume "1 < length (filter P xs)"
  then obtain a b rest where "filter P xs = a # b # rest"
    by (cases "filter P xs"; cases "tl (filter P xs)") auto
  from filter_eq_ConsD[OF this]
  obtain us vs where xs: "xs = us @ a # vs" and a: "P a" and vs: "filter P vs = b # rest"
    by metis
  from filter_eq_ConsD[OF vs]
  obtain us' vs' where vs': "vs = us' @ b # vs'" and b: "P b"
    by metis
  have "xs ! length us = a" by (simp add: xs)
  moreover have "xs ! (length us + Suc (length us')) = b"
    by (simp add: xs vs' nth_append)
  moreover have "length us + Suc (length us') < length xs" by (simp add: xs vs')
  ultimately show "\<exists>i j. i < j \<and> j < length xs \<and> P (xs ! i) \<and> P (xs ! j)"
    using a b by (intro exI[of _ "length us"] exI[of _ "length us + Suc (length us')"]) simp
next
  assume "\<exists>i j. i < j \<and> j < length xs \<and> P (xs ! i) \<and> P (xs ! j)"
  then obtain i j where ij: "i < j" "j < length xs" "P (xs ! i)" "P (xs ! j)" by blast
  have xs: "xs = take i xs @ xs ! i # drop (Suc i) xs"
    using ij by (intro id_take_nth_drop) simp
  have "xs ! j \<in> set (drop (Suc i) xs)"
    using ij by (auto simp: in_set_conv_nth intro!: exI[of _ "j - Suc i"])
  then have "filter P (drop (Suc i) xs) \<noteq> []"
    using ij(4) by (auto simp: filter_empty_conv)
  then have "0 < length (filter P (drop (Suc i) xs))" by simp
  moreover have "length (filter P xs) =
      length (filter P (take i xs)) + length (filter P [xs ! i]) + length (filter P (drop (Suc i) xs))"
    by (subst xs) simp
  ultimately show "1 < length (filter P xs)" using ij(3) by simp
qed

lemma vote_count_with_percentage [simp]: "vote_count (with_percentage t r) = vote_count r"
  by (cases r) (simp add: with_percentage_def tally_row.defs result_row.defs)

lemma results_of_sel:
  "body_results (results_of rows) = map (with_percentage (total_votes rows)) rows"
  "body_total (results_of rows) = total_votes rows"
  "body_winner (results_of rows) =
     (let winners = filter (leads (math_max (map vote_count rows)))
                      (map (with_percentage (total_votes rows)) rows)
      in if length winners = 1 then Some (winners ! 0) else None)"
  "body_tie (results_of rows) \<longleftrightarrow>
     1 < length (filter (leads (math_max (map vote_count rows)))
                   (map (with_percentage (total_votes rows)) rows)) \<and>
     (case math_max (map vote_count rows) of None \<Rightarrow> False | Some m \<Rightarrow> m > 0)"
  by (simp_all add: results_of_def Let_def comp_def)

lemma leads_nth:
  assumes "i < length rows"
  shows "leads (math_max (map vote_count rows)) (map (with_percentage t) rows ! i) \<longleftrightarrow>
         0 < vote_count (rows ! i) \<and> (\<forall>k<length rows. vote_count (rows ! k) \<le> vote_count (rows ! i))"
proof -
  have ne: "map vote_count rows \<noteq> []" using assms by auto
  let ?m = "Max (set (map vote_count rows))"
  have m: "math_max (map vote_count rows) = Some ?m" using ne by (rule math_max_Max)
  have "vote_count (rows ! i) = ?m \<longleftrightarrow> (\<forall>k<length rows. vote_count (rows ! k) \<le> vote_count (rows ! i))"
  proof
    assume "vote_count (rows ! i) = ?m"
    then show "\<forall>k<length rows. vote_count (rows ! k) \<le> vote_count (rows ! i)" by simp
  next
    assume a: "\<forall>k<length rows. vote_count (rows ! k) \<le> vote_count (rows ! i)"
    have "?m = vote_count (rows ! i)"
    proof (rule Max_eqI)
      show "finite (set (map vote_count rows))" by simp
      show "\<And>y. y \<in> set (map vote_count rows) \<Longrightarrow> y \<le> vote_count (rows ! i)"
        using a by (auto simp: in_set_conv_nth)
      show "vote_count (rows ! i) \<in> set (map vote_count rows)" using assms by simp
    qed
    then show "vote_count (rows ! i) = ?m" by simp
  qed
  then show ?thesis using assms by (auto simp: leads_def m)
qed

text \<open>
  The winner and the tie of the response in terms of the rows of the query.
\<close>

lemma results_of_winner_tie:
  "(body_winner (results_of rows) = Some w \<longleftrightarrow>
      (\<exists>i<length rows. w = with_percentage (total_votes rows) (rows ! i) \<and>
         0 < vote_count (rows ! i) \<and>
         (\<forall>j<length rows. j \<noteq> i \<longrightarrow> vote_count (rows ! j) < vote_count (rows ! i)))) \<and>
   (body_tie (results_of rows) \<longleftrightarrow>
      (\<exists>i j. i < j \<and> j < length rows \<and> 0 < vote_count (rows ! i) \<and>
         vote_count (rows ! j) = vote_count (rows ! i) \<and>
         (\<forall>k<length rows. vote_count (rows ! k) \<le> vote_count (rows ! i))))"
proof
  let ?t = "total_votes rows"
  let ?rs = "map (with_percentage ?t) rows"
  let ?P = "leads (math_max (map vote_count rows))"
  let ?ws = "filter ?P ?rs"
  have P: "?P (?rs ! i) \<longleftrightarrow>
      0 < vote_count (rows ! i) \<and> (\<forall>k<length rows. vote_count (rows ! k) \<le> vote_count (rows ! i))"
    if "i < length rows" for i
    using that by (rule leads_nth)
  show "body_winner (results_of rows) = Some w \<longleftrightarrow>
      (\<exists>i<length rows. w = with_percentage ?t (rows ! i) \<and> 0 < vote_count (rows ! i) \<and>
         (\<forall>j<length rows. j \<noteq> i \<longrightarrow> vote_count (rows ! j) < vote_count (rows ! i)))"
    (is "?L \<longleftrightarrow> ?R")
  proof
    assume ?L
    then have len: "length ?ws = 1" and w: "w = ?ws ! 0"
      by (auto simp: results_of_sel Let_def split: if_splits)
    from filter_single_nth[OF len] obtain i where i: "i < length rows" "?ws = [?rs ! i]"
      "?P (?rs ! i)" "\<forall>j<length rows. j \<noteq> i \<longrightarrow> \<not> ?P (?rs ! j)"
      by auto
    have pos: "0 < vote_count (rows ! i)"
      and ge: "\<forall>k<length rows. vote_count (rows ! k) \<le> vote_count (rows ! i)"
      using i(3) P[OF i(1)] by auto
    have "vote_count (rows ! j) < vote_count (rows ! i)" if j: "j < length rows" "j \<noteq> i" for j
    proof (rule ccontr)
      assume "\<not> vote_count (rows ! j) < vote_count (rows ! i)"
      with ge j have eq: "vote_count (rows ! j) = vote_count (rows ! i)" by force
      then have "?P (?rs ! j)" using P[OF j(1)] pos ge by simp
      with i(4) j show False by blast
    qed
    then show ?R using i(1,2) w pos by (intro exI[of _ i]) simp
  next
    assume ?R
    then obtain i where i: "i < length rows" "w = with_percentage ?t (rows ! i)"
      "0 < vote_count (rows ! i)"
      "\<forall>j<length rows. j \<noteq> i \<longrightarrow> vote_count (rows ! j) < vote_count (rows ! i)"
      by blast
    have ge: "\<forall>k<length rows. vote_count (rows ! k) \<le> vote_count (rows ! i)"
      using i(4) by (metis order_le_less)
    have 1: "?P (?rs ! i)" using P[OF i(1)] i(3) ge by simp
    have 2: "\<forall>j<length ?rs. j \<noteq> i \<longrightarrow> \<not> ?P (?rs ! j)"
    proof (intro allI impI)
      fix j assume j: "j < length ?rs" "j \<noteq> i"
      then have "vote_count (rows ! j) < vote_count (rows ! i)" using i(4) by simp
      then have "\<not> vote_count (rows ! i) \<le> vote_count (rows ! j)" by simp
      then show "\<not> ?P (?rs ! j)" using P[of j] j(1) i(1) by auto
    qed
    have "?ws = [?rs ! i]"
      using i(1) 1 2 by (intro filter_nth_single) simp_all
    then show ?L using i(1,2) by (simp add: results_of_sel)
  qed
  show "body_tie (results_of rows) \<longleftrightarrow>
      (\<exists>i j. i < j \<and> j < length rows \<and> 0 < vote_count (rows ! i) \<and>
         vote_count (rows ! j) = vote_count (rows ! i) \<and>
         (\<forall>k<length rows. vote_count (rows ! k) \<le> vote_count (rows ! i)))"
    (is "?L \<longleftrightarrow> ?R")
  proof
    assume ?L
    then have "1 < length ?ws" by (simp add: results_of_sel)
    then have "\<exists>i j. i < j \<and> j < length ?rs \<and> ?P (?rs ! i) \<and> ?P (?rs ! j)"
      by (simp only: filter_many_nth)
    then obtain i j where ij: "i < j" "j < length rows" "?P (?rs ! i)" "?P (?rs ! j)"
      by auto
    then have i: "i < length rows" by simp
    have "vote_count (rows ! j) = vote_count (rows ! i)"
      using ij(3,4) P[OF i] P[OF ij(2)] i ij(2) by (metis order_antisym)
    then show ?R using ij P[OF i] by blast
  next
    assume ?R
    then obtain i j where ij: "i < j" "j < length rows" "0 < vote_count (rows ! i)"
      "vote_count (rows ! j) = vote_count (rows ! i)"
      "\<forall>k<length rows. vote_count (rows ! k) \<le> vote_count (rows ! i)"
      by blast
    then have i: "i < length rows" by simp
    have Pi: "?P (?rs ! i)" using P[OF i] ij by simp
    have Pj: "?P (?rs ! j)" using P[OF ij(2)] ij by simp
    have "\<exists>i j. i < j \<and> j < length ?rs \<and> ?P (?rs ! i) \<and> ?P (?rs ! j)"
      using ij(1,2) Pi Pj by (rule_tac x = i in exI, rule_tac x = j in exI) simp
    then have "1 < length ?ws"
      by (simp only: filter_many_nth)
    moreover have "case math_max (map vote_count rows) of None \<Rightarrow> False | Some m \<Rightarrow> m > 0"
      using Pi by (simp add: leads_def)
    ultimately show ?L by (simp add: results_of_sel)
  qed
qed

text \<open>The rows of the query are those of the candidates, one for each.\<close>

lemma select_tally_rows:
  "select_tally s = map (tally_of s) (sort_key cposition (candidates s))"
  by (simp add: select_tally_def tally_of_def count_votes_for_def)

lemma distinct_nth_unique:
  assumes "distinct (map k xs)"
  shows "(\<exists>i<length xs. P (xs ! i) \<and> (\<forall>j<length xs. j \<noteq> i \<longrightarrow> Q (xs ! j) (xs ! i))) \<longleftrightarrow>
         (\<exists>x \<in> set xs. P x \<and> (\<forall>y \<in> set xs. k y \<noteq> k x \<longrightarrow> Q y x))"
proof
  assume "\<exists>i<length xs. P (xs ! i) \<and> (\<forall>j<length xs. j \<noteq> i \<longrightarrow> Q (xs ! j) (xs ! i))"
  then obtain i where i: "i < length xs" "P (xs ! i)"
    "\<forall>j<length xs. j \<noteq> i \<longrightarrow> Q (xs ! j) (xs ! i)"
    by blast
  have "Q y (xs ! i)" if "y \<in> set xs" "k y \<noteq> k (xs ! i)" for y
  proof -
    from that(1) obtain j where j: "j < length xs" "y = xs ! j" by (auto simp: in_set_conv_nth)
    with that(2) have "j \<noteq> i" by auto
    with i(3) j show ?thesis by simp
  qed
  then show "\<exists>x \<in> set xs. P x \<and> (\<forall>y \<in> set xs. k y \<noteq> k x \<longrightarrow> Q y x)"
    using i(1,2) by (intro bexI[of _ "xs ! i"]) auto
next
  assume "\<exists>x \<in> set xs. P x \<and> (\<forall>y \<in> set xs. k y \<noteq> k x \<longrightarrow> Q y x)"
  then obtain x where x: "x \<in> set xs" "P x" "\<forall>y \<in> set xs. k y \<noteq> k x \<longrightarrow> Q y x" by blast
  then obtain i where i: "i < length xs" "x = xs ! i" by (auto simp: in_set_conv_nth)
  have "Q (xs ! j) (xs ! i)" if "j < length xs" "j \<noteq> i" for j
  proof -
    have "map k xs ! j \<noteq> map k xs ! i"
      using assms that i(1) by (simp add: nth_eq_iff_index_eq del: nth_map)
    then have "k (xs ! j) \<noteq> k x" using that(1) i by simp
    then show ?thesis using x(3) that(1) i(2) by simp
  qed
  then show "\<exists>i<length xs. P (xs ! i) \<and> (\<forall>j<length xs. j \<noteq> i \<longrightarrow> Q (xs ! j) (xs ! i))"
    using i x(2) by blast
qed

lemma distinct_nth_pair:
  assumes "distinct (map k xs)" and sym: "\<And>x y. R x y \<Longrightarrow> R y x"
  shows "(\<exists>i j. i < j \<and> j < length xs \<and> R (xs ! i) (xs ! j)) \<longleftrightarrow>
         (\<exists>x \<in> set xs. \<exists>y \<in> set xs. k y \<noteq> k x \<and> R x y)"
proof
  assume "\<exists>i j. i < j \<and> j < length xs \<and> R (xs ! i) (xs ! j)"
  then obtain i j where ij: "i < j" "j < length xs" "R (xs ! i) (xs ! j)" by blast
  then have "map k xs ! j \<noteq> map k xs ! i"
    using assms(1) by (simp add: nth_eq_iff_index_eq del: nth_map)
  then have "k (xs ! j) \<noteq> k (xs ! i)" using ij by simp
  then show "\<exists>x \<in> set xs. \<exists>y \<in> set xs. k y \<noteq> k x \<and> R x y"
    using ij by (intro bexI[of _ "xs ! i"] bexI[of _ "xs ! j"]) auto
next
  assume "\<exists>x \<in> set xs. \<exists>y \<in> set xs. k y \<noteq> k x \<and> R x y"
  then obtain x y where xy: "x \<in> set xs" "y \<in> set xs" "k y \<noteq> k x" "R x y" by blast
  then obtain i j where ij: "i < length xs" "x = xs ! i" "j < length xs" "y = xs ! j"
    by (auto simp: in_set_conv_nth)
  with xy(3) have ne: "i \<noteq> j" by auto
  show "\<exists>i j. i < j \<and> j < length xs \<and> R (xs ! i) (xs ! j)"
  proof (cases "i < j")
    case True
    then show ?thesis using ij xy(4) by blast
  next
    case False
    then have "j < i" using ne by simp
    moreover have "R (xs ! j) (xs ! i)" using sym[OF xy(4)] ij by simp
    ultimately show ?thesis using ij(1) by blast
  qed
qed

lemma distinct_sorted_cids:
  "distinct (map cid (candidates s)) \<Longrightarrow> distinct (map cid (sort_key cposition (candidates s)))"
  by (simp add: distinct_map)

text \<open>The vote counts of the examples, on any rows and on any database.\<close>

lemma results_of_examples:
  "map vote_count rows = [3, 3, 1] \<Longrightarrow>
     body_tie (results_of rows) \<and> body_winner (results_of rows) = None"
  "map vote_count rows = [5, 2, 1] \<Longrightarrow>
     \<not> body_tie (results_of rows) \<and>
     body_winner (results_of rows) = Some (with_percentage 8 (hd rows))"
  "map vote_count rows = [0, 0, 0] \<Longrightarrow>
     \<not> body_tie (results_of rows) \<and> body_winner (results_of rows) = None"
  by (auto simp: results_of_sel math_max_def leads_def total_votes_def map_eq_Cons_conv)

lemma tally_counts:
  "map vote_count (select_tally s) =
     map (\<lambda>c. int (count_votes_for (cid c) s)) (select_candidates s)"
  by (simp add: select_tally_rows select_candidates_def tally_of_def comp_def)

lemma int_counts:
  "map f xs = [a, b, c] \<Longrightarrow> map (\<lambda>x. int (f x)) xs = [int a, int b, int c]"
  by (auto simp: map_eq_Cons_conv)

lemma get_results_examples:
  "map (\<lambda>c. count_votes_for (cid c) s) (select_candidates s) = [3, 3, 1] \<Longrightarrow>
     body_tie (results_of (select_tally s)) \<and> body_winner (results_of (select_tally s)) = None"
  "map (\<lambda>c. count_votes_for (cid c) s) (select_candidates s) = [5, 2, 1] \<Longrightarrow>
     \<not> body_tie (results_of (select_tally s)) \<and>
     body_winner (results_of (select_tally s)) =
       Some (with_percentage 8 (tally_of s (hd (select_candidates s))))"
  "map (\<lambda>c. count_votes_for (cid c) s) (select_candidates s) = [0, 0, 0] \<Longrightarrow>
     \<not> body_tie (results_of (select_tally s)) \<and> body_winner (results_of (select_tally s)) = None"
proof -
  have hd: "hd (select_tally s) = tally_of s (hd (select_candidates s))"
    if "select_candidates s \<noteq> []"
    using that by (simp add: select_tally_rows select_candidates_def hd_map)
  show "map (\<lambda>c. count_votes_for (cid c) s) (select_candidates s) = [3, 3, 1] \<Longrightarrow>
     body_tie (results_of (select_tally s)) \<and> body_winner (results_of (select_tally s)) = None"
    using results_of_examples(1)[of "select_tally s"] int_counts[of _ "select_candidates s" 3 3 1]
    by (simp add: tally_counts)
  show "map (\<lambda>c. count_votes_for (cid c) s) (select_candidates s) = [5, 2, 1] \<Longrightarrow>
     \<not> body_tie (results_of (select_tally s)) \<and>
     body_winner (results_of (select_tally s)) =
       Some (with_percentage 8 (tally_of s (hd (select_candidates s))))"
    using results_of_examples(2)[of "select_tally s"] int_counts[of _ "select_candidates s" 5 2 1] hd
    by (auto simp: tally_counts)
  show "map (\<lambda>c. count_votes_for (cid c) s) (select_candidates s) = [0, 0, 0] \<Longrightarrow>
     \<not> body_tie (results_of (select_tally s)) \<and> body_winner (results_of (select_tally s)) = None"
    using results_of_examples(3)[of "select_tally s"] int_counts[of _ "select_candidates s" 0 0 0]
    by (simp add: tally_counts)
qed

text \<open>
  C3. On a database in which no two candidates have the same id, which is the primary key
  of their table, the tally is answered with status 200; its winner is the row of a
  candidate, with its percentage, if and only if that candidate has more than zero votes
  and every other candidate has fewer votes, and there is no winner otherwise. The tally
  reports a tie if and only if two candidates have the same number of votes, more than
  zero, and no candidate has more. In particular three candidates with 3, 3 and 1 votes,
  in the order of their positions, give a tie and no winner, with 5, 2 and 1 votes the
  first as the winner and no tie, and with no votes neither.
\<close>

theorem tally_winner_tie:
  assumes "distinct (map cid (candidates s))"
  shows "\<exists>b. get_results healthy s = (Response 200 b, s) \<and>
     (\<forall>w. body_winner b = Some w \<longleftrightarrow>
        (\<exists>c \<in> set (candidates s).
           w = with_percentage (body_total b) (tally_of s c) \<and>
           0 < count_votes_for (cid c) s \<and>
           (\<forall>c' \<in> set (candidates s).
              cid c' \<noteq> cid c \<longrightarrow> count_votes_for (cid c') s < count_votes_for (cid c) s))) \<and>
     (body_tie b \<longleftrightarrow>
        (\<exists>c \<in> set (candidates s). \<exists>c' \<in> set (candidates s).
           cid c' \<noteq> cid c \<and> 0 < count_votes_for (cid c) s \<and>
           count_votes_for (cid c') s = count_votes_for (cid c) s \<and>
           (\<forall>d \<in> set (candidates s). count_votes_for (cid d) s \<le> count_votes_for (cid c) s))) \<and>
     (map (\<lambda>c. count_votes_for (cid c) s) (select_candidates s) = [3, 3, 1] \<longrightarrow>
        body_tie b \<and> body_winner b = None) \<and>
     (map (\<lambda>c. count_votes_for (cid c) s) (select_candidates s) = [5, 2, 1] \<longrightarrow>
        \<not> body_tie b \<and>
        body_winner b = Some (with_percentage 8 (tally_of s (hd (select_candidates s))))) \<and>
     (map (\<lambda>c. count_votes_for (cid c) s) (select_candidates s) = [0, 0, 0] \<longrightarrow>
        \<not> body_tie b \<and> body_winner b = None)"
proof -
  define cs where "cs = sort_key cposition (candidates s)"
  define rows where "rows = select_tally s"
  define n where "n = (\<lambda>c::candidate. count_votes_for (cid c) s)"
  have rows: "rows = map (tally_of s) cs"
    by (simp add: rows_def cs_def select_tally_rows)
  have len: "length rows = length cs" by (simp add: rows)
  have d: "distinct (map cid cs)"
    unfolding cs_def using assms by (rule distinct_sorted_cids)
  have set: "set cs = set (candidates s)" by (simp add: cs_def)
  have nth: "rows ! i = tally_of s (cs ! i)" if "i < length cs" for i
    using that by (simp add: rows)
  have vc: "vote_count (tally_of s c) = int (n c)" for c
    by (simp add: tally_of_def n_def)
  have res: "get_results healthy s = (Response 200 (results_of rows), s)"
    by (simp add: get_results_def healthy_def rows_def)
  have total: "body_total (results_of rows) = total_votes rows"
    by (simp add: results_of_sel)
  have win: "body_winner (results_of rows) = Some w \<longleftrightarrow>
        (\<exists>c \<in> set (candidates s).
           w = with_percentage (total_votes rows) (tally_of s c) \<and> 0 < n c \<and>
           (\<forall>c' \<in> set (candidates s). cid c' \<noteq> cid c \<longrightarrow> n c' < n c))" for w
  proof -
    have "body_winner (results_of rows) = Some w \<longleftrightarrow>
      (\<exists>i<length cs. (w = with_percentage (total_votes rows) (tally_of s (cs ! i)) \<and>
         0 < n (cs ! i)) \<and>
         (\<forall>j<length cs. j \<noteq> i \<longrightarrow> n (cs ! j) < n (cs ! i)))"
      unfolding results_of_winner_tie[THEN conjunct1] len
      by (simp add: nth vc cong: conj_cong)
    also have "\<dots> \<longleftrightarrow> (\<exists>c \<in> set cs.
           (w = with_percentage (total_votes rows) (tally_of s c) \<and> 0 < n c) \<and>
           (\<forall>c' \<in> set cs. cid c' \<noteq> cid c \<longrightarrow> n c' < n c))"
      by (rule distinct_nth_unique[OF d])
    finally show ?thesis by (simp add: set)
  qed
  have tie: "body_tie (results_of rows) \<longleftrightarrow>
        (\<exists>c \<in> set (candidates s). \<exists>c' \<in> set (candidates s).
           cid c' \<noteq> cid c \<and> 0 < n c \<and> n c' = n c \<and> (\<forall>d \<in> set (candidates s). n d \<le> n c))"
  proof -
    let ?R = "\<lambda>x y. 0 < n x \<and> n y = n x \<and> (\<forall>d \<in> set cs. n d \<le> n x)"
    have "body_tie (results_of rows) \<longleftrightarrow>
      (\<exists>i j. i < j \<and> j < length cs \<and> 0 < n (cs ! i) \<and> n (cs ! j) = n (cs ! i) \<and>
         (\<forall>k<length cs. n (cs ! k) \<le> n (cs ! i)))"
      unfolding results_of_winner_tie[THEN conjunct2] len
      by (simp add: nth vc cong: conj_cong)
    also have "\<dots> \<longleftrightarrow> (\<exists>i j. i < j \<and> j < length cs \<and> ?R (cs ! i) (cs ! j))"
      by (simp add: all_set_conv_all_nth)
    also have "\<dots> \<longleftrightarrow> (\<exists>x \<in> set cs. \<exists>y \<in> set cs. cid y \<noteq> cid x \<and> ?R x y)"
      by (rule distinct_nth_pair[OF d]) auto
    finally show ?thesis by (simp add: set)
  qed
  show ?thesis
    using res win tie get_results_examples[of s] unfolding n_def rows_def
    by (intro exI[of _ "results_of (select_tally s)"]) (simp add: total[unfolded rows_def])
qed

lemma ballots_candidates:
  "candidates (ballots cs) =
     [\<lparr>cid = 1, cname = ''Alice Johnson'', cposition = 1, created_at = 0\<rparr>,
      \<lparr>cid = 2, cname = ''Bob Smith'', cposition = 2, created_at = 0\<rparr>,
      \<lparr>cid = 3, cname = ''Carol Wilson'', cposition = 3, created_at = 0\<rparr>]"
  by (simp add: ballots_def init_store_def default_candidates_def)

lemma ballots_count:
  "count_votes_for i (ballots cs) = length (filter (\<lambda>c. c = i) cs)"
proof -
  have "length (filter (\<lambda>v. candidate_id v = i)
          (map (\<lambda>(j, c). \<lparr>vid = int j + 1, voter_name = replicate (Suc j) CHR ''a'',
                           candidate_id = c, timestamp = 1\<rparr>) (enumerate k cs))) =
        length (filter (\<lambda>c. c = i) cs)" for k
    by (induction cs arbitrary: k) auto
  then show ?thesis by (simp add: count_votes_for_def ballots_def)
qed

lemma ballots_521_row:
  "with_percentage 8
     \<lparr>rid = 1, rname = ''Alice Johnson'', rposition = 1, vote_count = 5\<rparr> =
   \<lparr>rid = 1, rname = ''Alice Johnson'', rposition = 1, vote_count = 5, percentage = Fixed1 625\<rparr>"
  by code_simp

text \<open>
  Three candidates with 3, 3 and 1 votes, with 5, 2 and 1 votes, and with no votes.
\<close>

theorem tally_winner_tie_witness:
  "distinct (map cid (candidates (ballots [1, 1, 1, 2, 2, 2, 3]))) \<and>
   distinct (map cid (candidates (ballots [1, 1, 1, 1, 1, 2, 2, 3]))) \<and>
   distinct (map cid (candidates (ballots []))) \<and>
   map cid (candidates (ballots [1, 1, 1, 2, 2, 2, 3])) = [1, 2, 3] \<and>
   map (\<lambda>c. count_votes_for (cid c) (ballots [1, 1, 1, 2, 2, 2, 3]))
     (candidates (ballots [1, 1, 1, 2, 2, 2, 3])) = [3, 3, 1] \<and>
   body_tie (body (fst (get_results healthy (ballots [1, 1, 1, 2, 2, 2, 3])))) \<and>
   body_winner (body (fst (get_results healthy (ballots [1, 1, 1, 2, 2, 2, 3])))) = None \<and>
   map (\<lambda>c. count_votes_for (cid c) (ballots [1, 1, 1, 1, 1, 2, 2, 3]))
     (candidates (ballots [1, 1, 1, 1, 1, 2, 2, 3])) = [5, 2, 1] \<and>
   body_winner (body (fst (get_results healthy (ballots [1, 1, 1, 1, 1, 2, 2, 3])))) =
     Some \<lparr>rid = 1, rname = ''Alice Johnson'', rposition = 1, vote_count = 5,
           percentage = Fixed1 625\<rparr> \<and>
   \<not> body_tie (body (fst (get_results healthy (ballots [1, 1, 1, 1, 1, 2, 2, 3])))) \<and>
   map (\<lambda>c. count_votes_for (cid c) (ballots [])) (candidates (ballots [])) = [0, 0, 0] \<and>
   body_winner (body (fst (get_results healthy (ballots [])))) = None \<and>
   \<not> body_tie (body (fst (get_results healthy (ballots []))))"
proof -
  let ?a = "ballots [1, 1, 1, 2, 2, 2, 3]" and ?b = "ballots [1, 1, 1, 1, 1, 2, 2, 3]"
  have d: "distinct (map cid (candidates (ballots cs)))" for cs
    by (simp add: ballots_candidates)
  have sel: "select_candidates (ballots cs) = candidates (ballots cs)" for cs
    by (simp add: select_candidates_def ballots_candidates)
  have counts: "map (\<lambda>c. count_votes_for (cid c) ?a) (candidates ?a) = [3, 3, 1]"
    "map (\<lambda>c. count_votes_for (cid c) ?b) (candidates ?b) = [5, 2, 1]"
    "map (\<lambda>c. count_votes_for (cid c) (ballots [])) (candidates (ballots [])) = [0, 0, 0]"
    by (simp_all add: ballots_candidates ballots_count)
  from tally_winner_tie[OF d, of "[1, 1, 1, 2, 2, 2, 3]"] counts(1)
  have a: "body_tie (body (fst (get_results healthy ?a)))"
    "body_winner (body (fst (get_results healthy ?a))) = None"
    by (auto simp: sel)
  from tally_winner_tie[OF d, of "[1, 1, 1, 1, 1, 2, 2, 3]"] counts(2)
  have "\<not> body_tie (body (fst (get_results healthy ?b)))"
    "body_winner (body (fst (get_results healthy ?b))) =
       Some (with_percentage 8 (tally_of ?b (hd (candidates ?b))))"
    by (auto simp: sel)
  then have b: "\<not> body_tie (body (fst (get_results healthy ?b)))"
    "body_winner (body (fst (get_results healthy ?b))) =
     Some \<lparr>rid = 1, rname = ''Alice Johnson'', rposition = 1, vote_count = 5,
           percentage = Fixed1 625\<rparr>"
    by (simp_all add: ballots_candidates ballots_count tally_of_def ballots_521_row)
  from tally_winner_tie[OF d, of "[]"] counts(3)
  have c: "\<not> body_tie (body (fst (get_results healthy (ballots []))))"
    "body_winner (body (fst (get_results healthy (ballots [])))) = None"
    by (auto simp: sel)
  show ?thesis
    using a b c counts d by (simp add: ballots_candidates)
qed

section \<open>Errors\<close>

lemma statement_failed:
  "observed p \<Longrightarrow> statement (Some msg) now p s = (s, Some (Response 500 (ErrorBody msg)), None)"
  by (cases p) (simp_all add: storage_error_def)

lemma issued_length: "length (issued db now req s) \<le> 3"
  by (simp add: issued_def split: sum.splits prod.splits option.splits)

lemma handle_failed:
  assumes "k < length (issued db now req s)" "observed (issued db now req s ! k)"
    "db k = Some msg"
  shows "fst (handle db now req s) = Response 500 (ErrorBody msg)"
proof -
  have "k < 3" using assms(1) issued_length[of db now req s] by simp
  then consider "k = 0" | "k = 1" | "k = 2" by linarith
  then show ?thesis
  proof cases
    case 1
    with assms show ?thesis
      by (cases req)
        (auto simp: issued_def get_candidates_def add_candidate_def update_candidate_def
          delete_candidate_def cast_vote_def get_results_def get_voters_def check_voter_def
          publish_results_def get_settings_def reset_votes_def storage_error_def
          split: if_splits option.splits)
  next
    case 2
    with assms show ?thesis
      by (cases req; cases "db 0")
        (auto simp: issued_def get_candidates_def add_candidate_def update_candidate_def
          delete_candidate_def cast_vote_def get_results_def get_voters_def check_voter_def
          publish_results_def get_settings_def reset_votes_def storage_error_def Let_def
          update_candidate_name_def delete_votes_def
          split: if_splits option.splits)
  next
    case 3
    with assms show ?thesis
      by (cases req; cases "db 0"; cases "db 1")
        (auto simp: issued_def get_candidates_def add_candidate_def update_candidate_def
          delete_candidate_def cast_vote_def get_results_def get_voters_def check_voter_def
          publish_results_def get_settings_def reset_votes_def storage_error_def Let_def
          update_candidate_name_def delete_votes_def delete_candidate_row_def insert_candidate_def
          split: if_splits option.splits sum.splits)
  qed
qed

lemma validation_400:
  "\<not> truthy name \<or> (\<exists>n. name = JStr n \<and> js_trim n = []) \<Longrightarrow>
   fst (handle db now (PostCandidates name) s) =
     Response 400 (ErrorBody ''Candidate name is required'') \<and>
   fst (handle db now (PutCandidate i name) s) =
     Response 400 (ErrorBody ''Candidate name is required'')"
  "\<not> truthy voterName \<or> candidateId \<in> {None, Some 0} \<Longrightarrow>
   fst (handle db now (PostVotes voterName candidateId) s) =
     Response 400 (ErrorBody ''Voter name and candidate ID are required'')"
  by (auto simp: add_candidate_def update_candidate_def cast_vote_def not_num_def)

lemma not_found_404:
  assumes "i \<notin> cid ` set (candidates s)"
  shows "js_trim n \<noteq> [] \<Longrightarrow>
     fst (handle healthy now (PutCandidate i (JStr n)) s) =
       Response 404 (ErrorBody ''Candidate not found'')"
    and "count_votes_for i s = 0 \<Longrightarrow>
     fst (handle healthy now (DeleteCandidate i) s) =
       Response 404 (ErrorBody ''Candidate not found'')"
    and "n \<noteq> [] \<Longrightarrow> i \<noteq> 0 \<Longrightarrow> \<not> select_vote_of (js_trim n) s \<Longrightarrow>
     fst (handle healthy now (PostVotes (JStr n) (Some i)) s) =
       Response 404 (ErrorBody ''Candidate not found'')"
proof -
  have none: "filter (\<lambda>c. cid c = i) (candidates s) = []"
    using assms by (auto simp: filter_empty_conv)
  show "js_trim n \<noteq> [] \<Longrightarrow>
     fst (handle healthy now (PutCandidate i (JStr n)) s) =
       Response 404 (ErrorBody ''Candidate not found'')"
    using none
    by (auto simp: update_candidate_def update_candidate_name_def healthy_def js_trim_def)
  show "count_votes_for i s = 0 \<Longrightarrow>
     fst (handle healthy now (DeleteCandidate i) s) =
       Response 404 (ErrorBody ''Candidate not found'')"
    using none by (simp add: delete_candidate_def delete_candidate_row_def healthy_def)
  show "n \<noteq> [] \<Longrightarrow> i \<noteq> 0 \<Longrightarrow> \<not> select_vote_of (js_trim n) s \<Longrightarrow>
     fst (handle healthy now (PostVotes (JStr n) (Some i)) s) =
       Response 404 (ErrorBody ''Candidate not found'')"
    using assms by (auto simp: cast_vote_def not_num_def healthy_def select_candidate_def)
qed

lemma conflict_400:
  "0 < count_votes_for i s \<Longrightarrow>
   fst (handle healthy now (DeleteCandidate i) s) =
     Response 400 (ErrorBody ''Cannot delete candidate with existing votes. Reset votes first.'')"
  "n \<noteq> [] \<Longrightarrow> candidateId \<notin> {None, Some 0} \<Longrightarrow> select_vote_of (js_trim n) s \<Longrightarrow>
   fst (handle healthy now (PostVotes (JStr n) candidateId) s) =
     Response 400 (ErrorBody ''You have already voted!'')"
  by (auto simp: delete_candidate_def cast_vote_def not_num_def healthy_def)

text \<open>
  C9, as the code has it. A statement that fails, other than the one that moves the
  positions after a deletion, whose outcome no callback looks at, is answered with status
  500 and the message of the storage layer as it is; the database stays as it was and the
  request issues nothing more. So is the request, with no other under way, whose
  statement number \<open>k\<close> fails. A candidate name that is missing or blank, and a vote
  without voter name or candidate id, are answered 400; a candidate id that no candidate
  has is answered 404 when a candidate is renamed, deleted or voted for; a candidate with
  votes that is to be deleted and a voter who has voted are answered 400.
\<close>

theorem storage_failure_status:
  "(observed p \<longrightarrow>
      statement (Some msg) now p s = (s, Some (Response 500 (ErrorBody msg)), None)) \<and>
   (k < length (issued db now req s) \<and> observed (issued db now req s ! k) \<and> db k = Some msg \<longrightarrow>
      fst (handle db now req s) = Response 500 (ErrorBody msg)) \<and>
   (\<not> truthy name \<or> (\<exists>n. name = JStr n \<and> js_trim n = []) \<longrightarrow>
      fst (handle db now (PostCandidates name) s) =
        Response 400 (ErrorBody ''Candidate name is required'') \<and>
      fst (handle db now (PutCandidate i name) s) =
        Response 400 (ErrorBody ''Candidate name is required'')) \<and>
   (\<not> truthy voterName \<or> candidateId \<in> {None, Some 0} \<longrightarrow>
      fst (handle db now (PostVotes voterName candidateId) s) =
        Response 400 (ErrorBody ''Voter name and candidate ID are required'')) \<and>
   (i \<notin> cid ` set (candidates s) \<longrightarrow>
      (js_trim n \<noteq> [] \<longrightarrow>
         fst (handle healthy now (PutCandidate i (JStr n)) s) =
           Response 404 (ErrorBody ''Candidate not found'')) \<and>
      (count_votes_for i s = 0 \<longrightarrow>
         fst (handle healthy now (DeleteCandidate i) s) =
           Response 404 (ErrorBody ''Candidate not found'')) \<and>
      (n \<noteq> [] \<and> i \<noteq> 0 \<and> \<not> select_vote_of (js_trim n) s \<longrightarrow>
         fst (handle healthy now (PostVotes (JStr n) (Some i)) s) =
           Response 404 (ErrorBody ''Candidate not found''))) \<and>
   (0 < count_votes_for i s \<longrightarrow>
      fst (handle healthy now (DeleteCandidate i) s) =
        Response 400
          (ErrorBody ''Cannot delete candidate with existing votes. Reset votes first.'')) \<and>
   (n \<noteq> [] \<and> candidateId \<notin> {None, Some 0} \<and> select_vote_of (js_trim n) s \<longrightarrow>
      fst (handle healthy now (PostVotes (JStr n) candidateId) s) =
        Response 400 (ErrorBody ''You have already voted!''))"
proof (intro conjI impI)
  assume "observed p"
  then show "statement (Some msg) now p s = (s, Some (Response 500 (ErrorBody msg)), None)"
    by (rule statement_failed)
next
  assume "k < length (issued db now req s) \<and> observed (issued db now req s ! k) \<and>
    db k = Some msg"
  then show "fst (handle db now req s) = Response 500 (ErrorBody msg)"
    using handle_failed by blast
next
  assume a: "\<not> truthy name \<or> (\<exists>n. name = JStr n \<and> js_trim n = [])"
  from validation_400(1)[OF a]
  show "fst (handle db now (PostCandidates name) s) =
      Response 400 (ErrorBody ''Candidate name is required'')"
    and "fst (handle db now (PutCandidate i name) s) =
      Response 400 (ErrorBody ''Candidate name is required'')"
    by blast+
next
  assume "\<not> truthy voterName \<or> candidateId \<in> {None, Some 0}"
  then show "fst (handle db now (PostVotes voterName candidateId) s) =
      Response 400 (ErrorBody ''Voter name and candidate ID are required'')"
    by (rule validation_400(2))
next
  assume "i \<notin> cid ` set (candidates s)" "js_trim n \<noteq> []"
  then show "fst (handle healthy now (PutCandidate i (JStr n)) s) =
      Response 404 (ErrorBody ''Candidate not found'')"
    by (rule not_found_404(1))
next
  assume "i \<notin> cid ` set (candidates s)" "count_votes_for i s = 0"
  then show "fst (handle healthy now (DeleteCandidate i) s) =
      Response 404 (ErrorBody ''Candidate not found'')"
    by (rule not_found_404(2))
next
  assume "i \<notin> cid ` set (candidates s)" "n \<noteq> [] \<and> i \<noteq> 0 \<and> \<not> select_vote_of (js_trim n) s"
  then show "fst (handle healthy now (PostVotes (JStr n) (Some i)) s) =
      Response 404 (ErrorBody ''Candidate not found'')"
    using not_found_404(3) by blast
next
  assume "0 < count_votes_for i s"
  then show "fst (handle healthy now (DeleteCandidate i) s) =
      Response 400
        (ErrorBody ''Cannot delete candidate with existing votes. Reset votes first.'')"
    by (rule conflict_400(1))
next
  assume "n \<noteq> [] \<and> candidateId \<notin> {None, Some 0} \<and> select_vote_of (js_trim n) s"
  then show "fst (handle healthy now (PostVotes (JStr n) candidateId) s) =
      Response 400 (ErrorBody ''You have already voted!'')"
    using conflict_400(2) by blast
qed

text \<open>
  The list of candidates, asked for while the disk fails: the response carries the
  message of the storage layer, not the text of the error-handling middleware.
\<close>

theorem storage_error_message_leaks:
  "disk_failure 0 = Some ''SQLITE_IOERR: disk I/O error'' \<and>
   fst (handle disk_failure 0 GetCandidates (init_store 0)) =
     Response 500 (ErrorBody ''SQLITE_IOERR: disk I/O error'') \<and>
   fst (handle disk_failure 0 GetCandidates (init_store 0)) \<noteq>
     error_middleware ''SQLITE_IOERR: disk I/O error''"
  by (simp add: disk_failure_def get_candidates_def storage_error_def error_middleware_def)

text \<open>
  A vote whose second statement finds the database locked, and requests that are
  rejected while the storage works.
\<close>

theorem storage_failure_status_witness:
  "observed (InsertVote ''Ann'' 1) \<and>
   statement (Some ''SQLITE_BUSY: database is locked'') 3 (InsertVote ''Ann'' 1) (init_store 0) =
     (init_store 0, Some (Response 500 (ErrorBody ''SQLITE_BUSY: database is locked'')), None) \<and>
   issued locked_second 3 (PostVotes (JStr ''Ann'') (Some 1)) (init_store 0) =
     [SelectVote ''Ann'' 1, SelectCandidate ''Ann'' 1] \<and>
   locked_second 1 = Some ''SQLITE_BUSY: database is locked'' \<and>
   fst (handle locked_second 3 (PostVotes (JStr ''Ann'') (Some 1)) (init_store 0)) =
     Response 500 (ErrorBody ''SQLITE_BUSY: database is locked'') \<and>
   fst (handle locked_second 3 (PostCandidates (JStr '' '')) (init_store 0)) =
     Response 400 (ErrorBody ''Candidate name is required'') \<and>
   fst (handle locked_second 3 (PutCandidate 9 (JStr '' '')) (init_store 0)) =
     Response 400 (ErrorBody ''Candidate name is required'') \<and>
   fst (handle locked_second 3 (PostVotes JUndefined (Some 1)) (init_store 0)) =
     Response 400 (ErrorBody ''Voter name and candidate ID are required'') \<and>
   fst (handle healthy 3 (PutCandidate 9 (JStr ''Zed'')) (init_store 0)) =
     Response 404 (ErrorBody ''Candidate not found'') \<and>
   fst (handle healthy 3 (DeleteCandidate 9) (init_store 0)) =
     Response 404 (ErrorBody ''Candidate not found'') \<and>
   fst (handle healthy 3 (PostVotes (JStr ''Zed'') (Some 9)) (init_store 0)) =
     Response 404 (ErrorBody ''Candidate not found'') \<and>
   count_votes_for 1 alice_voted = 1 \<and>
   fst (handle healthy 3 (DeleteCandidate 1) alice_voted) =
     Response 400 (ErrorBody ''Cannot delete candidate with existing votes. Reset votes first.'') \<and>
   select_vote_of (js_trim ''alice'') alice_voted \<and>
   fst (handle healthy 3 (PostVotes (JStr ''alice'') (Some 2)) alice_voted) =
     Response 400 (ErrorBody ''You have already voted!'')"
proof -
  have o: "observed (InsertVote ''Ann'' 1)" by simp
  have t: "js_trim ''Ann'' = ''Ann''" "js_trim ''Zed'' = ''Zed''" "js_trim '' '' = []"
    "js_trim ''alice'' = ''alice''"
    by (simp_all add: js_trim_def is_space_def)
  have l: "locked_second 0 = None" "locked_second 1 = Some ''SQLITE_BUSY: database is locked''"
    by (simp_all add: locked_second_def healthy_def)
  have i: "issued locked_second 3 (PostVotes (JStr ''Ann'') (Some 1)) (init_store 0) =
     [SelectVote ''Ann'' 1, SelectCandidate ''Ann'' 1]"
    by (simp add: issued_def not_num_def t locked_second_def healthy_def select_vote_of_def
        select_candidate_def init_store_def default_candidates_def storage_error_def)
  have c: "(9::int) \<notin> cid ` set (candidates (init_store 0))"
    "count_votes_for 9 (init_store 0) = 0" "\<not> select_vote_of ''Zed'' (init_store 0)"
    by (simp_all add: init_store_def default_candidates_def count_votes_for_def
        select_vote_of_def)
  have v: "count_votes_for 1 alice_voted = 1" "select_vote_of ''alice'' alice_voted"
    by (simp_all add: count_votes_for_def select_vote_of_def alice_voted_votes sql_lower_def
        lower_char_def char_of_eq eq_char_of)
  note A = storage_failure_status[where p = "InsertVote ''Ann'' 1"
      and msg = "''SQLITE_BUSY: database is locked''" and now = 3 and s = "init_store 0"
      and k = 1 and db = locked_second and req = "PostVotes (JStr ''Ann'') (Some 1)"
      and name = "JStr '' ''" and i = 9 and voterName = JUndefined and candidateId = "Some 1"
      and n = "''Zed''"]
  note B = storage_failure_status[where s = alice_voted and i = 1 and n = "''alice''"
      and candidateId = "Some 2" and now = 3]
  have a: "statement (Some ''SQLITE_BUSY: database is locked'') 3 (InsertVote ''Ann'' 1)
             (init_store 0) =
     (init_store 0, Some (Response 500 (ErrorBody ''SQLITE_BUSY: database is locked'')), None)"
    "fst (handle locked_second 3 (PostVotes (JStr ''Ann'') (Some 1)) (init_store 0)) =
     Response 500 (ErrorBody ''SQLITE_BUSY: database is locked'')"
    "fst (handle locked_second 3 (PostCandidates (JStr '' '')) (init_store 0)) =
     Response 400 (ErrorBody ''Candidate name is required'')"
    "fst (handle locked_second 3 (PutCandidate 9 (JStr '' '')) (init_store 0)) =
     Response 400 (ErrorBody ''Candidate name is required'')"
    "fst (handle locked_second 3 (PostVotes JUndefined (Some 1)) (init_store 0)) =
     Response 400 (ErrorBody ''Voter name and candidate ID are required'')"
    "fst (handle healthy 3 (PutCandidate 9 (JStr ''Zed'')) (init_store 0)) =
     Response 404 (ErrorBody ''Candidate not found'')"
    "fst (handle healthy 3 (DeleteCandidate 9) (init_store 0)) =
     Response 404 (ErrorBody ''Candidate not found'')"
    "fst (handle healthy 3 (PostVotes (JStr ''Zed'') (Some 9)) (init_store 0)) =
     Response 404 (ErrorBody ''Candidate not found'')"
    using A o i l c by (simp_all add: t)
  have b: "fst (handle healthy 3 (DeleteCandidate 1) alice_voted) =
     Response 400 (ErrorBody ''Cannot delete candidate with existing votes. Reset votes first.'')"
    "fst (handle healthy 3 (PostVotes (JStr ''alice'') (Some 2)) alice_voted) =
     Response 400 (ErrorBody ''You have already voted!'')"
    using B v by (simp_all add: t)
  show ?thesis using o i l a b v by (simp add: t)
qed

section \<open>Percentages\<close>

lemma quotient_of_pos:
  assumes "0 < q"
  shows "0 < fst (quotient_of q)" "0 < snd (quotient_of q)"
    "q = of_int (fst (quotient_of q)) / of_int (snd (quotient_of q))"
proof -
  obtain a b where ab: "quotient_of q = (a, b)" by (cases "quotient_of q")
  then have b: "0 < b" by (rule quotient_of_denom_pos)
  have q: "q = of_int a / of_int b" using ab by (rule quotient_of_div)
  have a: "0 < a" using assms b unfolding q by (simp add: zero_less_divide_iff)
  have sel: "fst (quotient_of q) = a" "snd (quotient_of q) = b" by (simp_all add: ab)
  show "0 < fst (quotient_of q)" unfolding sel by (rule a)
  show "0 < snd (quotient_of q)" unfolding sel by (rule b)
  show "q = of_int (fst (quotient_of q)) / of_int (snd (quotient_of q))"
    unfolding sel by (rule q)
qed

lemma bitlen_powi:
  assumes "0 < (x::int)"
  shows "(2::rat) powi (bitlen x - 1) \<le> of_int x" "(of_int x :: rat) < 2 powi (bitlen x)"
proof -
  have b: "2 ^ nat (bitlen x - 1) \<le> x" "x < 2 ^ nat (bitlen x)"
    using bitlen_bounds[OF assms] by auto
  have pos: "1 \<le> bitlen x" using assms by (simp add: bitlen_alt_def)
  have "(2::rat) powi (bitlen x - 1) = of_int (2 ^ nat (bitlen x - 1))"
    using pos by (simp add: power_int_def)
  also have "\<dots> \<le> of_int x" using b(1) by (simp only: of_int_le_iff)
  finally show "(2::rat) powi (bitlen x - 1) \<le> of_int x" .
  have "(of_int x :: rat) < of_int (2 ^ nat (bitlen x))" using b(2) by (simp only: of_int_less_iff)
  also have "\<dots> = 2 powi (bitlen x)" using pos by (simp add: power_int_def)
  finally show "(of_int x :: rat) < 2 powi (bitlen x)" .
qed

lemma binade_bounds:
  assumes "0 < q"
  shows "2 powi (binade q) \<le> q" "q < 2 powi (binade q + 1)"
proof -
  define a b where "a = fst (quotient_of q)" and "b = snd (quotient_of q)"
  have a: "0 < a" and b: "0 < b" and q: "q = of_int a / of_int b"
    using quotient_of_pos[OF assms] by (simp_all add: a_def b_def)
  define e where "e = bitlen a - bitlen b"
  have bin: "binade q = (if 2 powi e \<le> q then e else e - 1)"
    by (simp add: binade_def Let_def a_def b_def e_def)
  have bpos: "(0::rat) < of_int b" using b by simp
  have low: "2 powi (e - 1) \<le> q"
  proof -
    have "(2::rat) powi (e - 1) = 2 powi (bitlen a - 1) / 2 powi (bitlen b)"
      by (simp add: e_def power_int_diff)
    also have "\<dots> \<le> of_int a / 2 powi (bitlen b)"
      using bitlen_powi(1)[OF a] by (simp add: divide_right_mono)
    also have "\<dots> \<le> of_int a / of_int b"
      using bitlen_powi(2)[OF b] a bpos by (intro divide_left_mono) (auto intro: mult_pos_pos)
    finally show ?thesis by (simp add: q)
  qed
  have high: "q < 2 powi (e + 1)"
  proof -
    have "q = of_int a / of_int b" by (rule q)
    also have "\<dots> < 2 powi (bitlen a) / of_int b"
      using bitlen_powi(2)[OF a] bpos by (simp add: divide_strict_right_mono)
    also have "\<dots> \<le> 2 powi (bitlen a) / 2 powi (bitlen b - 1)"
      using bitlen_powi(1)[OF b] bpos by (intro divide_left_mono) (auto intro: mult_pos_pos)
    also have "\<dots> = 2 powi (e + 1)"
      by (simp add: e_def power_int_diff power_int_add)
    finally show ?thesis .
  qed
  show "2 powi (binade q) \<le> q" using low by (simp add: bin)
  show "q < 2 powi (binade q + 1)" using high by (auto simp: bin not_le)
qed

lemma round_half_even_error: "\<bar>of_int (round_half_even q) - q\<bar> \<le> 1 / 2"
proof -
  have "of_int \<lfloor>q\<rfloor> \<le> q" "q < of_int \<lfloor>q\<rfloor> + 1" by linarith+
  then show ?thesis by (auto simp: round_half_even_def Let_def)
qed

lemma fl64_error:
  assumes "0 < q"
  shows "\<bar>fl64 q - q\<bar> \<le> q / 2 ^ 53"
proof -
  define u :: rat where "u = 2 powi (binade q - 52)"
  have u: "0 < u" by (simp add: u_def)
  have fl: "fl64 q = of_int (round_half_even (q / u)) * u"
    using assms by (simp add: fl64_def u_def Let_def)
  have "fl64 q - q = (of_int (round_half_even (q / u)) - q / u) * u"
    using u by (simp add: fl field_simps)
  then have "\<bar>fl64 q - q\<bar> = \<bar>of_int (round_half_even (q / u)) - q / u\<bar> * u"
    using u by (simp add: abs_mult)
  also have "\<dots> \<le> 1 / 2 * u"
    using round_half_even_error[of "q / u"] u by (intro mult_right_mono) auto
  also have "\<dots> = 2 powi (binade q) / 2 ^ 53"
    by (simp add: u_def power_int_diff)
  also have "\<dots> \<le> q / 2 ^ 53"
    using binade_bounds(1)[OF assms] by (simp add: divide_right_mono)
  finally show ?thesis .
qed

lemma fl64_zero [simp]: "fl64 0 = 0"
  by (simp add: fl64_def)

lemma fl64_nonneg:
  assumes "0 \<le> q"
  shows "0 \<le> fl64 q"
proof (cases "q = 0")
  case False
  with assms have q: "0 < q" by simp
  have "q / 2 ^ 53 \<le> q" using q by (simp add: field_simps)
  with fl64_error[OF q] show ?thesis by linarith
qed simp

lemma double_share_error:
  assumes "0 \<le> c" "c \<le> t" "0 < t"
  shows "\<bar>fl64 (fl64 (of_int c / of_int t) * 100) - share c t\<bar> \<le> 300 / 2 ^ 53"
proof (cases "c = 0")
  case True
  then show ?thesis by (simp add: share_def)
next
  case False
  define p :: rat where "p = of_int c / of_int t"
  define u :: rat where "u = 1 / 2 ^ 53"
  have u: "0 < u" "u \<le> 1" by (simp_all add: u_def)
  have p: "0 < p" "p \<le> 1" using assms False by (simp_all add: p_def)
  define q where "q = fl64 p"
  have q_err: "\<bar>q - p\<bar> \<le> p * u" using fl64_error[OF p(1)] by (simp add: q_def u_def)
  have "p * u < p" using p(1) by (simp add: u_def)
  with q_err have q: "0 < q" by linarith
  have q_le: "q \<le> p + p * u" using q_err by linarith
  define x where "x = fl64 (q * 100)"
  have x_err: "\<bar>x - q * 100\<bar> \<le> q * 100 * u"
    using fl64_error[of "q * 100"] q by (simp add: x_def u_def)
  have "q * 100 * u \<le> (p + p * u) * 100 * u"
    using q_le u(1) by (intro mult_right_mono) auto
  also have "\<dots> \<le> (p + p * 1) * 100 * u"
    using p(1) u by (intro mult_right_mono mult_left_mono add_left_mono) auto
  finally have 1: "\<bar>x - q * 100\<bar> \<le> 200 * p * u" using x_err by simp
  have 2: "\<bar>q * 100 - p * 100\<bar> \<le> 100 * p * u" using q_err by linarith
  have "\<bar>x - p * 100\<bar> \<le> 300 * p * u" using 1 2 by linarith
  also have "\<dots> \<le> 300 * 1 * u" using p(2) u(1) by (intro mult_right_mono mult_left_mono) auto
  finally have "\<bar>x - p * 100\<bar> \<le> 300 / 2 ^ 53" by (simp add: u_def)
  moreover have "p * 100 = share c t" by (simp add: p_def share_def)
  ultimately have "\<bar>x - share c t\<bar> \<le> 300 / 2 ^ 53" by simp
  then show ?thesis by (simp only: x_def q_def p_def)
qed

lemma to_fixed1_nonneg: "0 \<le> x \<Longrightarrow> to_fixed1 x = \<lfloor>10 * x + 1 / 2\<rfloor>"
  by (simp add: to_fixed1_def)

lemma percentage_of_pos:
  assumes "0 < t" "0 \<le> c"
  shows "percentage_of t c =
           Fixed1 \<lfloor>10 * fl64 (fl64 (of_int c / of_int t) * 100) + 1 / 2\<rfloor>"
proof -
  have "0 \<le> fl64 (of_int c / of_int t)" using assms by (intro fl64_nonneg) simp
  then have "0 \<le> fl64 (fl64 (of_int c / of_int t) * 100)" by (intro fl64_nonneg) simp
  then show ?thesis using assms(1) by (simp add: percentage_of_def to_fixed1_nonneg)
qed

lemma tenths_error:
  assumes "0 \<le> c" "c \<le> t" "0 < t" "percentage_of t c = Fixed1 n"
  shows "\<bar>of_int n / 10 - share c t\<bar> \<le> 1 / 20 + 300 / 2 ^ 53"
proof -
  define x where "x = fl64 (fl64 (of_int c / of_int t) * 100)"
  have n: "n = \<lfloor>10 * x + 1 / 2\<rfloor>"
    using percentage_of_pos[OF assms(3,1)] assms(4) by (simp add: x_def)
  have "of_int n \<le> 10 * x + 1 / 2" "10 * x + 1 / 2 < of_int n + 1"
    unfolding n by linarith+
  then have "\<bar>of_int n / 10 - x\<bar> \<le> 1 / 20" by linarith
  moreover have "\<bar>x - share c t\<bar> \<le> 300 / 2 ^ 53"
    unfolding x_def using assms(1-3) by (rule double_share_error)
  ultimately show ?thesis by linarith
qed

lemma tenths_exact:
  assumes "0 \<le> c" "c \<le> t" "0 < t" "t < 2 ^ 40" "percentage_of t c = Fixed1 n"
  shows "n = round1 (share c t) \<or>
         n = round1 (share c t) - 1 \<and> of_int (round1 (share c t)) = 10 * share c t + 1 / 2"
proof -
  define x where "x = fl64 (fl64 (of_int c / of_int t) * 100)"
  define m where "m = (2000 * c + t) div (2 * t)"
  define r where "r = (2000 * c + t) mod (2 * t)"
  have n: "n = \<lfloor>10 * x + 1 / 2\<rfloor>"
    using percentage_of_pos[OF assms(3,1)] assms(5) by (simp add: x_def)
  have tpos: "(0::rat) < of_int t" using assms(3) by simp
  have w: "10 * share c t + 1 / 2 = of_int (2000 * c + t) / of_int (2 * t)"
    using assms(3) by (simp add: share_def field_simps)
  have m: "round1 (share c t) = m"
    unfolding round1_def w m_def by (rule floor_divide_of_int_eq)
  have "2000 * c + t = 2 * t * m + r" by (simp add: m_def r_def)
  then have "of_int (2000 * c + t) = (of_int (2 * t * m + r) :: rat)" by simp
  then have w': "10 * share c t + 1 / 2 = of_int m + of_int r / of_int (2 * t)"
    unfolding w using assms(3) by (simp add: field_simps)
  have r: "0 \<le> r" "r < 2 * t" using assms(3) by (simp_all add: r_def)
  have err: "\<bar>x - share c t\<bar> \<le> 300 / 2 ^ 53"
    unfolding x_def using assms(1-3) by (rule double_share_error)
  have "(300 :: rat) / 2 ^ 53 * 10 < 1 / 2 ^ 41" by simp
  also have "(1::rat) / 2 ^ 41 < 1 / of_int (2 * t)"
  proof -
    have "2 * t < 2 ^ 41" using assms(4) by simp
    then have "(of_int (2 * t) :: rat) < of_int (2 ^ 41)" by (simp only: of_int_less_iff)
    then show ?thesis using tpos by (simp add: field_simps)
  qed
  finally have eps: "(300 :: rat) / 2 ^ 53 * 10 < 1 / of_int (2 * t)" .
  have close: "\<bar>(10 * x + 1 / 2) - (of_int m + of_int r / of_int (2 * t))\<bar> < 1 / of_int (2 * t)"
    using err eps unfolding w'[symmetric] by linarith
  show ?thesis
  proof (cases "r = 0")
    case True
    have "1 / of_int (2 * t) \<le> (1::rat)" using assms(3) by simp
    with close True have "of_int (m - 1) \<le> 10 * x + 1 / 2" "10 * x + 1 / 2 < of_int (m - 1) + 2"
      by (auto simp: abs_less_iff)
    then have "n = m - 1 \<or> n = m" unfolding n by linarith
    moreover have "of_int (round1 (share c t)) = 10 * share c t + 1 / 2"
      using True by (simp add: m w')
    ultimately show ?thesis by (auto simp: m)
  next
    case False
    with r have r1: "1 \<le> r" "r \<le> 2 * t - 1" by auto
    have lo: "1 / of_int (2 * t) \<le> (of_int r :: rat) / of_int (2 * t)"
      using r1(1) tpos by (intro divide_right_mono) auto
    have "(of_int r :: rat) \<le> of_int (2 * t - 1)" using r1(2) by (simp only: of_int_le_iff)
    then have "(of_int r :: rat) / of_int (2 * t) \<le> of_int (2 * t - 1) / of_int (2 * t)"
      using tpos by (intro divide_right_mono) auto
    also have "\<dots> = 1 - 1 / of_int (2 * t)" using tpos by (simp add: field_simps)
    finally have hi: "(of_int r :: rat) / of_int (2 * t) \<le> 1 - 1 / of_int (2 * t)" .
    have "of_int m \<le> 10 * x + 1 / 2" "10 * x + 1 / 2 < of_int m + 1"
      using close lo hi by linarith+
    then have "n = m" unfolding n by linarith
    then show ?thesis by (simp add: m)
  qed
qed

lemma total_votes_sum: "total_votes rows = sum_list (map vote_count rows)"
proof -
  have "foldl (\<lambda>sum candidate. sum + vote_count candidate) a rows = a + sum_list (map vote_count rows)" for a
    by (induction rows arbitrary: a) simp_all
  then show ?thesis by (simp add: total_votes_def)
qed

lemma member_le_sum_list_int:
  fixes xs :: "int list"
  assumes "\<forall>y \<in> set xs. 0 \<le> y" "x \<in> set xs"
  shows "x \<le> sum_list xs"
  using assms
proof (induction xs)
  case Nil
  then show ?case by simp
next
  case (Cons a xs)
  have "0 \<le> sum_list xs" using Cons.prems(1) by (intro sum_list_nonneg) simp
  then show ?case using Cons by auto
qed

lemma sum_list_abs_diff:
  fixes f g :: "'a \<Rightarrow> rat"
  assumes "\<forall>x \<in> set xs. \<bar>f x - g x\<bar> \<le> b"
  shows "\<bar>sum_list (map f xs) - sum_list (map g xs)\<bar> \<le> of_nat (length xs) * b"
  using assms
proof (induction xs)
  case Nil
  then show ?case by simp
next
  case (Cons a xs)
  then have "\<bar>f a - g a\<bar> \<le> b"
    "\<bar>sum_list (map f xs) - sum_list (map g xs)\<bar> \<le> of_nat (length xs) * b"
    by simp_all
  then show ?case by (simp add: algebra_simps)
qed

lemma percentage_with_percentage [simp]:
  "percentage (with_percentage t r) = percentage_of t (vote_count r)"
  by (cases r) (simp add: with_percentage_def tally_row.defs result_row.defs)

lemma rid_with_percentage [simp]: "rid (with_percentage t r) = rid r"
  by (cases r) (simp add: with_percentage_def tally_row.defs result_row.defs)

lemma sum_list_share:
  assumes "0 < t" "t = sum_list cs"
  shows "sum_list (map (\<lambda>c. share c t) cs) = 100"
proof -
  have "sum_list (map (\<lambda>c. share c t) cs) = 100 * of_int (sum_list cs) / of_int t"
    by (induction cs) (simp_all add: share_def add_divide_distrib distrib_left)
  then show ?thesis using assms by simp
qed

lemma results_percentages:
  assumes nonneg: "\<forall>r \<in> set rows. 0 \<le> vote_count r"
  defines "t \<equiv> total_votes rows"
  defines "rs \<equiv> body_results (results_of rows)"
  shows "t \<le> 0 \<longrightarrow> (\<forall>r \<in> set rs. percentage r = Number 0)"
    and "0 < t \<longrightarrow>
          (\<forall>r \<in> set rs. \<exists>n. percentage r = Fixed1 n \<and>
             \<bar>of_int n / 10 - share (vote_count r) t\<bar> \<le> 1 / 20 + 300 / 2 ^ 53 \<and>
             (t < 2 ^ 40 \<longrightarrow>
                n = round1 (share (vote_count r) t) \<or>
                n = round1 (share (vote_count r) t) - 1 \<and>
                of_int (round1 (share (vote_count r) t)) = 10 * share (vote_count r) t + 1 / 2))"
    and "0 < t \<longrightarrow>
          \<bar>sum_list (map (\<lambda>r. percent_value (percentage r)) rs) - 100\<bar> \<le> of_nat (length rs) / 10"
proof -
  have rs: "rs = map (with_percentage t) rows"
    by (simp add: rs_def t_def results_of_sel)
  show "t \<le> 0 \<longrightarrow> (\<forall>r \<in> set rs. percentage r = Number 0)"
    by (auto simp: rs percentage_of_def)
  have le: "vote_count r \<le> t" if "r \<in> set rows" for r
    unfolding t_def total_votes_sum using nonneg that
    by (intro member_le_sum_list_int) auto
  have each: "\<exists>n. percentage_of t (vote_count r) = Fixed1 n \<and>
             \<bar>of_int n / 10 - share (vote_count r) t\<bar> \<le> 1 / 20 + 300 / 2 ^ 53 \<and>
             (t < 2 ^ 40 \<longrightarrow>
                n = round1 (share (vote_count r) t) \<or>
                n = round1 (share (vote_count r) t) - 1 \<and>
                of_int (round1 (share (vote_count r) t)) = 10 * share (vote_count r) t + 1 / 2)"
    if t: "0 < t" and r: "r \<in> set rows" for r
  proof -
    have c: "0 \<le> vote_count r" "vote_count r \<le> t" using nonneg r le by auto
    obtain n where n: "percentage_of t (vote_count r) = Fixed1 n"
      using t by (simp add: percentage_of_def)
    show ?thesis
      using n tenths_error[OF c t n] tenths_exact[OF c t _ n] by blast
  qed
  then show "0 < t \<longrightarrow>
          (\<forall>r \<in> set rs. \<exists>n. percentage r = Fixed1 n \<and>
             \<bar>of_int n / 10 - share (vote_count r) t\<bar> \<le> 1 / 20 + 300 / 2 ^ 53 \<and>
             (t < 2 ^ 40 \<longrightarrow>
                n = round1 (share (vote_count r) t) \<or>
                n = round1 (share (vote_count r) t) - 1 \<and>
                of_int (round1 (share (vote_count r) t)) = 10 * share (vote_count r) t + 1 / 2))"
    by (auto simp: rs)
  show "0 < t \<longrightarrow>
          \<bar>sum_list (map (\<lambda>r. percent_value (percentage r)) rs) - 100\<bar> \<le> of_nat (length rs) / 10"
  proof
    assume t: "0 < t"
    have b: "\<forall>r \<in> set rows. \<bar>percent_value (percentage_of t (vote_count r)) - share (vote_count r) t\<bar>
        \<le> 1 / 10"
    proof
      fix r assume r: "r \<in> set rows"
      from each[OF t r] obtain n where n: "percentage_of t (vote_count r) = Fixed1 n"
        "\<bar>of_int n / 10 - share (vote_count r) t\<bar> \<le> 1 / 20 + 300 / 2 ^ 53"
        by blast
      have "(1::rat) / 20 + 300 / 2 ^ 53 \<le> 1 / 10" by simp
      with n(2) show "\<bar>percent_value (percentage_of t (vote_count r)) - share (vote_count r) t\<bar>
        \<le> 1 / 10"
        by (simp add: n(1) percent_value_def)
    qed
    have "sum_list (map (\<lambda>r. share (vote_count r) t) rows) = 100"
      using sum_list_share[OF t, of "map vote_count rows"]
      by (simp add: t_def total_votes_sum comp_def)
    with sum_list_abs_diff[OF b]
    show "\<bar>sum_list (map (\<lambda>r. percent_value (percentage r)) rs) - 100\<bar> \<le> of_nat (length rs) / 10"
      by (simp add: rs comp_def)
  qed
qed

lemma select_tally_nonneg: "\<forall>r \<in> set (select_tally s). 0 \<le> vote_count r"
  by (simp add: select_tally_def)

lemma select_tally_rid: "map rid (select_tally s) = map cid (select_candidates s)"
  by (simp add: select_tally_def select_candidates_def)

text \<open>
  C8, as the code has it. The results hold every candidate, in the order of the
  positions. When no vote counts, every percentage is the number 0. Otherwise every
  percentage has one decimal and differs from the candidate's share of the votes by at
  most 0.05 and the error of the two floating-point operations, \<open>300 / 2^53\<close>; for
  fewer than \<open>2^40\<close> votes it is the share rounded to one decimal, the nearest tenth and
  the larger of two, except that a share halfway between two tenths may come out as the
  smaller one. The percentages add up to 100 within 0.1 for each candidate.
\<close>

theorem tally_percentages:
  "fst (get_results healthy s) = Response 200 (results_of (select_tally s)) \<and>
   map rid (body_results (results_of (select_tally s))) = map cid (select_candidates s) \<and>
   (body_total (results_of (select_tally s)) = 0 \<longrightarrow>
      (\<forall>r \<in> set (body_results (results_of (select_tally s))). percentage r = Number 0)) \<and>
   (0 < body_total (results_of (select_tally s)) \<longrightarrow>
      (\<forall>r \<in> set (body_results (results_of (select_tally s))).
         \<exists>n. percentage r = Fixed1 n \<and>
           \<bar>of_int n / 10 - share (vote_count r) (body_total (results_of (select_tally s)))\<bar>
             \<le> 1 / 20 + 300 / 2 ^ 53 \<and>
           (body_total (results_of (select_tally s)) < 2 ^ 40 \<longrightarrow>
              n = round1 (share (vote_count r) (body_total (results_of (select_tally s)))) \<or>
              n = round1 (share (vote_count r) (body_total (results_of (select_tally s)))) - 1 \<and>
              of_int (round1 (share (vote_count r) (body_total (results_of (select_tally s))))) =
                10 * share (vote_count r) (body_total (results_of (select_tally s))) + 1 / 2))) \<and>
   (0 < body_total (results_of (select_tally s)) \<longrightarrow>
      \<bar>sum_list (map (\<lambda>r. percent_value (percentage r))
           (body_results (results_of (select_tally s)))) - 100\<bar>
        \<le> of_nat (length (body_results (results_of (select_tally s)))) / 10)"
proof -
  have t: "body_total (results_of (select_tally s)) = total_votes (select_tally s)"
    by (simp add: results_of_sel)
  have 1: "fst (get_results healthy s) = Response 200 (results_of (select_tally s))"
    by (simp add: get_results_def healthy_def)
  have 2: "map rid (body_results (results_of (select_tally s))) = map cid (select_candidates s)"
    by (simp add: results_of_sel comp_def select_tally_rid[symmetric])
  show ?thesis
    unfolding t using 1 2 results_percentages[OF select_tally_nonneg, of s]
    by (intro conjI) simp_all
qed

lemma eighty_votes_results:
  "map (\<lambda>r. (rid r, vote_count r, percentage r))
     (body_results (results_of (select_tally eighty_votes))) =
     [(1, 23, Fixed1 287), (2, 57, Fixed1 713), (3, 0, Fixed1 0), (4, 0, Fixed1 0)]"
  by code_simp

lemma eighty_votes_total: "body_total (results_of (select_tally eighty_votes)) = 80"
  by code_simp

text \<open>
  With 23 of 80 votes the share is 28.75 percent, which rounds to 28.8; the quotient
  \<open>23 / 80\<close> times 100 is the binary64 number \<open>28.749999999999996\<close>, and the result
  reports 28.7.
\<close>

theorem percentage_rounds_tie_down:
  "body_total (results_of (select_tally eighty_votes)) = 80 \<and>
   map (\<lambda>r. (rid r, vote_count r, percentage r))
     (body_results (results_of (select_tally eighty_votes))) =
     [(1, 23, Fixed1 287), (2, 57, Fixed1 713), (3, 0, Fixed1 0), (4, 0, Fixed1 0)] \<and>
   share 23 80 = 115 / 4 \<and>
   round1 (share 23 80) = 288"
  using eighty_votes_results eighty_votes_total by (simp add: share_def round1_def)

lemma fresh_results:
  "body_total (results_of (select_tally (init_store 0))) = 0 \<and>
   map percentage (body_results (results_of (select_tally (init_store 0)))) =
     [Number 0, Number 0, Number 0, Number 0]"
  by code_simp

text \<open>The database with eighty votes, and the fresh one, which has none.\<close>

theorem tally_percentages_witness:
  "body_total (results_of (select_tally eighty_votes)) = 80 \<and>
   map (\<lambda>r. (vote_count r, percentage r)) (body_results (results_of (select_tally eighty_votes))) =
     [(23, Fixed1 287), (57, Fixed1 713), (0, Fixed1 0), (0, Fixed1 0)] \<and>
   \<bar>of_int 287 / 10 - share 23 80\<bar> \<le> 1 / 20 + 300 / 2 ^ 53 \<and>
   287 = round1 (share 23 80) - 1 \<and>
   of_int (round1 (share 23 80)) = 10 * share 23 80 + 1 / 2 \<and>
   \<bar>sum_list (map (\<lambda>r. percent_value (percentage r))
        (body_results (results_of (select_tally eighty_votes)))) - 100\<bar> \<le> 4 / 10 \<and>
   body_total (results_of (select_tally (init_store 0))) = 0 \<and>
   map percentage (body_results (results_of (select_tally (init_store 0)))) =
     [Number 0, Number 0, Number 0, Number 0]"
proof -
  let ?rs = "body_results (results_of (select_tally eighty_votes))"
  have t: "body_total (results_of (select_tally eighty_votes)) = 80"
    by (rule eighty_votes_total)
  have rs: "map (\<lambda>r. (vote_count r, percentage r)) ?rs =
     [(23, Fixed1 287), (57, Fixed1 713), (0, Fixed1 0), (0, Fixed1 0)]"
    using eighty_votes_results by (auto simp: map_eq_Cons_conv)
  then have "\<exists>r \<in> set ?rs. vote_count r = 23 \<and> percentage r = Fixed1 287"
    by (auto simp: map_eq_Cons_conv)
  then obtain r where r: "r \<in> set ?rs" "vote_count r = 23" "percentage r = Fixed1 287"
    by blast
  have len: "length ?rs = 4" using arg_cong[OF rs, of length] by simp
  have all: "\<forall>r \<in> set ?rs. \<exists>n. percentage r = Fixed1 n \<and>
           \<bar>of_int n / 10 - share (vote_count r) 80\<bar> \<le> 1 / 20 + 300 / 2 ^ 53 \<and>
           (n = round1 (share (vote_count r) 80) \<or>
            n = round1 (share (vote_count r) 80) - 1 \<and>
            of_int (round1 (share (vote_count r) 80)) = 10 * share (vote_count r) 80 + 1 / 2)"
    and sum: "\<bar>sum_list (map (\<lambda>r. percent_value (percentage r)) ?rs) - 100\<bar> \<le> 4 / 10"
    using tally_percentages[of eighty_votes] unfolding t len by simp_all
  have r1: "round1 (share 23 80) = 288" by (simp add: share_def round1_def)
  from all r have "\<bar>of_int 287 / 10 - share 23 80\<bar> \<le> 1 / 20 + 300 / 2 ^ 53 \<and>
      ((287::int) = round1 (share 23 80) \<or>
       287 = round1 (share 23 80) - 1 \<and>
       of_int (round1 (share 23 80)) = 10 * share 23 80 + 1 / 2)"
    by fastforce
  then have "\<bar>of_int 287 / 10 - share 23 80\<bar> \<le> 1 / 20 + 300 / 2 ^ 53"
    "287 = round1 (share 23 80) - 1"
    "of_int (round1 (share 23 80)) = 10 * share 23 80 + 1 / 2"
    unfolding r1 by simp_all
  then show ?thesis
    using t rs sum fresh_results by simp
qed

end
